theory Spec2Isabelle
  imports Main
begin

section \<open>Strings and character codes\<close>

text \<open>
  A source string is a sequence of UTF-16 code units, as \<open>charCodeAt\<close> reads them.
  Literals of the program are written \<open>str ''...''\<close>.
\<close>

type_synonym CharCode = nat
type_synonym jsstring = "CharCode list"

abbreviation (input) str :: "string \<Rightarrow> jsstring" where
  "str s \<equiv> map of_char s"

abbreviation (input) CHARACTER_TAB :: CharCode where "CHARACTER_TAB \<equiv> 9"
abbreviation (input) LINE_FEED :: CharCode where "LINE_FEED \<equiv> 10"
abbreviation (input) SPACE_CHARACTER :: CharCode where "SPACE_CHARACTER \<equiv> 32"
abbreviation (input) SINGLE_QUOTE_CHARACTER :: CharCode where "SINGLE_QUOTE_CHARACTER \<equiv> 39"
abbreviation (input) DOUBLE_QUOTE_CHARACTER :: CharCode where "DOUBLE_QUOTE_CHARACTER \<equiv> 34"
abbreviation (input) PERCENT_CHARACTER :: CharCode where "PERCENT_CHARACTER \<equiv> 37"
abbreviation (input) LEFT_PARENTHESIS :: CharCode where "LEFT_PARENTHESIS \<equiv> 40"
abbreviation (input) RIGHT_PARENTHESIS :: CharCode where "RIGHT_PARENTHESIS \<equiv> 41"
abbreviation (input) LEFT_BRACKET :: CharCode where "LEFT_BRACKET \<equiv> 91"
abbreviation (input) RIGHT_BRACKET :: CharCode where "RIGHT_BRACKET \<equiv> 93"
abbreviation (input) LEFT_CURLY_BRACE :: CharCode where "LEFT_CURLY_BRACE \<equiv> 123"
abbreviation (input) RIGHT_CURLY_BRACE :: CharCode where "RIGHT_CURLY_BRACE \<equiv> 125"
abbreviation (input) LESS_THAN_CHARACTER :: CharCode where "LESS_THAN_CHARACTER \<equiv> 60"
abbreviation (input) GREATER_THAN_CHARACTER :: CharCode where "GREATER_THAN_CHARACTER \<equiv> 62"
abbreviation (input) COMMA_CHARACTER :: CharCode where "COMMA_CHARACTER \<equiv> 44"
abbreviation (input) DOT_CHARACTER :: CharCode where "DOT_CHARACTER \<equiv> 46"
abbreviation (input) COLON_CHARACTER :: CharCode where "COLON_CHARACTER \<equiv> 58"
abbreviation (input) EQUALS_CHARACTER :: CharCode where "EQUALS_CHARACTER \<equiv> 61"
abbreviation (input) HASH_CHARACTER :: CharCode where "HASH_CHARACTER \<equiv> 35"
abbreviation (input) BACKSLASH_CHARACTER :: CharCode where "BACKSLASH_CHARACTER \<equiv> 92"
abbreviation (input) PIPE_CHARACTER :: CharCode where "PIPE_CHARACTER \<equiv> 124"
abbreviation (input) MINUS_CHARACTER :: CharCode where "MINUS_CHARACTER \<equiv> 45"
abbreviation (input) PLUS_CHARACTER :: CharCode where "PLUS_CHARACTER \<equiv> 43"
abbreviation (input) AMPERSAND_CHARACTER :: CharCode where "AMPERSAND_CHARACTER \<equiv> 38"
abbreviation (input) EXCLAMATION_CHARACTER :: CharCode where "EXCLAMATION_CHARACTER \<equiv> 33"
abbreviation (input) ASTERISK_CHARACTER :: CharCode where "ASTERISK_CHARACTER \<equiv> 42"
abbreviation (input) FORWARD_SLASH_CHARACTER :: CharCode where "FORWARD_SLASH_CHARACTER \<equiv> 47"
abbreviation (input) SEMICOLON_CHARACTER :: CharCode where "SEMICOLON_CHARACTER \<equiv> 59"
abbreviation (input) DOLLAR_CHARACTER :: CharCode where "DOLLAR_CHARACTER \<equiv> 36"
abbreviation (input) UNDERSCORE_CHARACTER :: CharCode where "UNDERSCORE_CHARACTER \<equiv> 95"
abbreviation (input) QUESTION_CHARACTER :: CharCode where "QUESTION_CHARACTER \<equiv> 63"
abbreviation (input) LETTER_A_CHARACTER :: CharCode where "LETTER_A_CHARACTER \<equiv> 64"
abbreviation (input) LETTER_Z_CHARACTER :: CharCode where "LETTER_Z_CHARACTER \<equiv> 90"
abbreviation (input) LOWERCASE_A_CHARACTER :: CharCode where "LOWERCASE_A_CHARACTER \<equiv> 97"
abbreviation (input) LOWERCASE_Z_CHARACTER :: CharCode where "LOWERCASE_Z_CHARACTER \<equiv> 122"
abbreviation (input) DIGIT_ZERO_CHARACTER :: CharCode where "DIGIT_ZERO_CHARACTER \<equiv> 48"
abbreviation (input) DIGIT_NINE_CHARACTER :: CharCode where "DIGIT_NINE_CHARACTER \<equiv> 57"

abbreviation (input) MAX_TOKENS :: nat where "MAX_TOKENS \<equiv> 40000"
abbreviation (input) MAX_ITERATIONS :: nat where "MAX_ITERATIONS \<equiv> 2"
abbreviation (input) MAX_STRING_LENGTH :: nat where "MAX_STRING_LENGTH \<equiv> 8 * 1024"
abbreviation (input) MAX_BLOCK_DEPTH :: nat where "MAX_BLOCK_DEPTH \<equiv> 256"

text \<open>\<open>charCodeAt\<close> is \<open>NaN\<close> out of range: \<open>None\<close> here, equal to no code.\<close>

definition charCodeAt :: "jsstring \<Rightarrow> nat \<Rightarrow> CharCode option" where
  "charCodeAt s i = (if i < length s then Some (s ! i) else None)"

text \<open>\<open>s.slice(a, b)\<close> for non-negative \<open>a\<close> and \<open>b\<close>.\<close>

definition slice :: "jsstring \<Rightarrow> nat \<Rightarrow> nat \<Rightarrow> jsstring" where
  "slice s a b = take (b - a) (drop a s)"

definition startsWith :: "jsstring \<Rightarrow> jsstring \<Rightarrow> bool" where
  "startsWith s p = (take (length p) s = p)"

definition endsWith :: "jsstring \<Rightarrow> jsstring \<Rightarrow> bool" where
  "endsWith s p = (length p \<le> length s \<and> drop (length s - length p) s = p)"

fun includesStr :: "jsstring \<Rightarrow> jsstring \<Rightarrow> bool" where
  "includesStr [] p = (p = [])"
| "includesStr (c # cs) p = (startsWith (c # cs) p \<or> includesStr cs p)"

text \<open>The white space and line terminators that \<open>String.prototype.trim\<close> removes.\<close>

definition isWhiteSpace :: "CharCode \<Rightarrow> bool" where
  "isWhiteSpace c =
     ((9 \<le> c \<and> c \<le> 13) \<or> c = 32 \<or> c = 160 \<or> c = 5760 \<or> (8192 \<le> c \<and> c \<le> 8202)
      \<or> c = 8232 \<or> c = 8233 \<or> c = 8239 \<or> c = 8287 \<or> c = 12288 \<or> c = 65279)"

definition trim :: "jsstring \<Rightarrow> jsstring" where
  "trim s = rev (dropWhile isWhiteSpace (rev (dropWhile isWhiteSpace s)))"

definition closingDelimiter :: "CharCode option \<Rightarrow> CharCode option" where
  "closingDelimiter opn =
     (if opn = Some LEFT_CURLY_BRACE then Some RIGHT_CURLY_BRACE
      else if opn = Some LEFT_BRACKET then Some RIGHT_BRACKET
      else if opn = Some LEFT_PARENTHESIS then Some RIGHT_PARENTHESIS
      else if opn = Some LESS_THAN_CHARACTER then Some GREATER_THAN_CHARACTER
      else opn)"

text \<open>\<open>Number.prototype.toString(16)\<close> on a code unit, and on \<open>NaN\<close>.\<close>

definition hexDigit :: "nat \<Rightarrow> CharCode" where
  "hexDigit d = (if d < 10 then 48 + d else 87 + d)"

function toHex :: "nat \<Rightarrow> jsstring" where
  "toHex n = (if n < 16 then [hexDigit n] else toHex (n div 16) @ [hexDigit (n mod 16)])"
  by pat_completeness auto
termination
  by (relation "measure id") auto

definition firstCharHex :: "jsstring \<Rightarrow> jsstring" where
  "firstCharHex t = (case charCodeAt t 0 of None \<Rightarrow> str ''NaN'' | Some c \<Rightarrow> toHex c)"

section \<open>Errors and tokens\<close>

text \<open>
  \<open>RubyDslError message offset line column previousHex opener\<close> is the parser's own
  error; \<open>TypeError\<close> is what the runtime throws when a property of \<open>undefined\<close> is read
  (a token read past the end of the token array).
\<close>

datatype error =
  RubyDslError jsstring nat nat nat jsstring "(nat \<times> nat) option"
| TypeError

datatype TokenKind =
  TIdentifier | TString | TSymbol | TInteger | TComma | TColon | TLeftParen | TRightParen
| TLeftBracket | TRightBracket | TDot | TEquals | TNewLine | TDo | TEnd | TIf | TElse
| TEndOfFile

record Token =
  tok_kind :: TokenKind
  tok_text :: jsstring
  tok_start :: nat
  tok_end :: nat
  tok_line :: nat
  tok_column :: nat

section \<open>Tokenizer\<close>

record lexer =
  tokens :: "Token list"
  index :: nat
  iterations :: nat
  line :: nat
  column :: nat

definition previousHex :: "Token list \<Rightarrow> jsstring" where
  "previousHex ts = (if ts \<noteq> [] then firstCharHex (tok_text (last ts)) else str ''00'')"

definition lexError :: "string \<Rightarrow> lexer \<Rightarrow> (nat \<times> nat) option \<Rightarrow> error" where
  "lexError msg lx opener =
     RubyDslError (str msg) (index lx) (line lx) (column lx) (previousHex (tokens lx)) opener"

text \<open>
  \<open>push\<close>, with the token quota as a parameter; the program's quota is \<open>MAX_TOKENS\<close>.
\<close>

definition push :: "nat \<Rightarrow> jsstring \<Rightarrow> lexer \<Rightarrow> TokenKind \<Rightarrow> nat \<Rightarrow> nat \<Rightarrow> error + lexer" where
  "push maxTokens source lx k s e =
     (if length (tokens lx) \<ge> maxTokens then Inl (lexError ''token quota exceeded'' lx None)
      else Inr (lx\<lparr>tokens := tokens lx @
                 [\<lparr>tok_kind = k, tok_text = slice source s e, tok_start = s, tok_end = e,
                   tok_line = line lx, tok_column = column lx\<rparr>]\<rparr>))"

text \<open>
  The loops \<open>while (index < source.length && P(source.charCodeAt(index))) { index++; column++ }\<close>
  of comments, identifiers, integers and unquoted symbols: the index where the scan stops.
\<close>

function scanWhile :: "(CharCode \<Rightarrow> bool) \<Rightarrow> jsstring \<Rightarrow> nat \<Rightarrow> nat" where
  "scanWhile P source i =
     (if i < length source \<and> P (source ! i) then scanWhile P source (i + 1) else i)"
  by pat_completeness auto
termination
  by (relation "measure (\<lambda>(P, source, i). length source - i)") auto

declare scanWhile.simps [simp del]

definition scanTo :: "(CharCode \<Rightarrow> bool) \<Rightarrow> jsstring \<Rightarrow> lexer \<Rightarrow> lexer" where
  "scanTo P source lx =
     (let j = scanWhile P source (index lx)
      in lx\<lparr>index := j, column := column lx + (j - index lx)\<rparr>)"

text \<open>
  The body loops of the quoted symbol (\<open>esc = False\<close>), the quoted string and the
  percent literal (\<open>esc = True\<close>: a backslash takes the next code unit with it). \<open>len\<close>
  counts the iterations; \<open>closer\<close> is \<open>None\<close> when the percent literal has no delimiter.
\<close>

function literalBody ::
  "bool \<Rightarrow> string \<Rightarrow> jsstring \<Rightarrow> CharCode option \<Rightarrow> (nat \<times> nat) \<Rightarrow> lexer \<Rightarrow> nat \<Rightarrow> error + lexer"
where
  "literalBody esc msg source closer opener lx len =
     (if index lx < length source \<and> charCodeAt source (index lx) \<noteq> closer then
        if len + 1 > MAX_STRING_LENGTH then Inl (lexError msg lx (Some opener))
        else
          let lx1 = (if esc \<and> charCodeAt source (index lx) = Some BACKSLASH_CHARACTER
                     then lx\<lparr>index := index lx + 1, column := column lx + 1\<rparr> else lx);
              lx2 = (if charCodeAt source (index lx1) = Some LINE_FEED
                     then lx1\<lparr>line := line lx1 + 1, column := 1\<rparr>
                     else lx1\<lparr>column := column lx1 + 1\<rparr>)
          in literalBody esc msg source closer opener (lx2\<lparr>index := index lx2 + 1\<rparr>) (len + 1)
      else Inr lx)"
  by pat_completeness auto
termination
  by (relation "measure (\<lambda>(esc, msg, source, closer, opener, lx, len). length source - index lx)")
     (auto simp: Let_def)

declare literalBody.simps [simp del]

definition isLetter :: "CharCode \<Rightarrow> bool" where
  "isLetter c = ((c \<ge> LETTER_A_CHARACTER \<and> c \<le> LETTER_Z_CHARACTER)
               \<or> (c \<ge> LOWERCASE_A_CHARACTER \<and> c \<le> LOWERCASE_Z_CHARACTER))"

definition isDigit :: "CharCode \<Rightarrow> bool" where
  "isDigit c = (c \<ge> DIGIT_ZERO_CHARACTER \<and> c \<le> DIGIT_NINE_CHARACTER)"

definition isSymbolChar :: "CharCode \<Rightarrow> bool" where
  "isSymbolChar c = (isLetter c \<or> isDigit c \<or> c = UNDERSCORE_CHARACTER)"

definition isIdentStart :: "CharCode \<Rightarrow> bool" where
  "isIdentStart c = (isLetter c \<or> c = UNDERSCORE_CHARACTER \<or> c = DOLLAR_CHARACTER)"

definition isIdentChar :: "CharCode \<Rightarrow> bool" where
  "isIdentChar c = (isLetter c \<or> isDigit c \<or> c = UNDERSCORE_CHARACTER \<or> c = DOLLAR_CHARACTER
                    \<or> c = QUESTION_CHARACTER \<or> c = EXCLAMATION_CHARACTER)"

definition singleCharKind :: "CharCode \<Rightarrow> TokenKind" where
  "singleCharKind cc =
     (if cc = COMMA_CHARACTER then TComma
      else if cc = LEFT_PARENTHESIS then TLeftParen
      else if cc = RIGHT_PARENTHESIS then TRightParen
      else if cc = LEFT_BRACKET then TLeftBracket
      else if cc = RIGHT_BRACKET then TRightBracket
      else if cc = DOT_CHARACTER then TDot
      else TEquals)"

definition wordKind :: "jsstring \<Rightarrow> TokenKind" where
  "wordKind word =
     (if word = str ''do'' then TDo
      else if word = str ''end'' then TEnd
      else if word = str ''if'' then TIf
      else if word = str ''else'' then TElse
      else TIdentifier)"

text \<open>Moving over one code unit on the same line: \<open>index++; column++\<close>.\<close>

definition bump :: "lexer \<Rightarrow> lexer" where
  "bump lx = lx\<lparr>index := index lx + 1, column := column lx + 1\<rparr>"

text \<open>The branch of the main loop for a colon at \<open>index\<close>.\<close>

definition lexColon :: "nat \<Rightarrow> jsstring \<Rightarrow> lexer \<Rightarrow> error + lexer" where
  "lexColon maxTokens source lx =
     (let i = index lx;
          nxt = charCodeAt source (i + 1);
          prev = (if i > 0 then charCodeAt source (i - 1) else Some 0)
      in if nxt = Some COLON_CHARACTER \<or> prev = Some COLON_CHARACTER then
           (case push maxTokens source lx TColon i (i + 1) of
              Inl e \<Rightarrow> Inl e
            | Inr lx1 \<Rightarrow> Inr (bump lx1))
         else if nxt = Some SINGLE_QUOTE_CHARACTER \<or> nxt = Some DOUBLE_QUOTE_CHARACTER then
           (let lx1 = bump lx;
                opener = (line lx1, column lx1);
                lx2 = bump lx1
            in case literalBody False ''symbol literal too long'' source nxt opener lx2 0 of
                 Inl e \<Rightarrow> Inl e
               | Inr lx3 \<Rightarrow>
                   if index lx3 \<ge> length source
                   then Inl (lexError ''unterminated symbol'' lx3 (Some opener))
                   else push maxTokens source (bump lx3) TSymbol i (index lx3 + 1))
         else if (case nxt of None \<Rightarrow> False | Some c2 \<Rightarrow> isSymbolChar c2) then
           (let lx1 = scanTo isSymbolChar source (bump lx)
            in push maxTokens source lx1 TSymbol i (index lx1))
         else
           (case push maxTokens source lx TColon i (i + 1) of
              Inl e \<Rightarrow> Inl e
            | Inr lx1 \<Rightarrow> Inr (bump lx1)))"

text \<open>One iteration of the main loop, after the iteration count has been checked.\<close>

definition lexStep :: "nat \<Rightarrow> jsstring \<Rightarrow> lexer \<Rightarrow> error + lexer" where
  "lexStep maxTokens source lx =
     (let i = index lx; cc = source ! i
      in if cc = SPACE_CHARACTER \<or> cc = CHARACTER_TAB then Inr (bump lx)
         else if cc = LINE_FEED then
           (case push maxTokens source lx TNewLine i (i + 1) of
              Inl e \<Rightarrow> Inl e
            | Inr lx1 \<Rightarrow> Inr (lx1\<lparr>index := i + 1, line := line lx1 + 1, column := 1\<rparr>))
         else if cc = COMMA_CHARACTER \<or> cc = LEFT_PARENTHESIS \<or> cc = RIGHT_PARENTHESIS
                 \<or> cc = LEFT_BRACKET \<or> cc = RIGHT_BRACKET \<or> cc = DOT_CHARACTER
                 \<or> cc = EQUALS_CHARACTER then
           (case push maxTokens source (lx\<lparr>index := i + 1\<rparr>) (singleCharKind cc) i (i + 1) of
              Inl e \<Rightarrow> Inl e
            | Inr lx1 \<Rightarrow> Inr (lx1\<lparr>column := column lx1 + 1\<rparr>))
         else if cc = COLON_CHARACTER then lexColon maxTokens source lx
         else if cc = HASH_CHARACTER then Inr (scanTo (\<lambda>c. c \<noteq> LINE_FEED) source lx)
         else if cc = PIPE_CHARACTER then
           (case push maxTokens source lx TSymbol i (i + 1) of
              Inl e \<Rightarrow> Inl e
            | Inr lx1 \<Rightarrow> Inr (bump lx1))
         else if cc = SINGLE_QUOTE_CHARACTER \<or> cc = DOUBLE_QUOTE_CHARACTER then
           (let opener = (line lx, column lx)
            in case literalBody True ''string literal too long'' source (Some cc) opener (bump lx) 0 of
                 Inl e \<Rightarrow> Inl e
               | Inr lx1 \<Rightarrow>
                   if index lx1 \<ge> length source
                   then Inl (lexError ''unterminated string'' lx1 (Some opener))
                   else (case push maxTokens source (lx1\<lparr>index := index lx1 + 1\<rparr>) TString i
                                (index lx1 + 1) of
                           Inl e \<Rightarrow> Inl e
                         | Inr lx2 \<Rightarrow> Inr (lx2\<lparr>column := column lx2 + 1\<rparr>)))
         else if cc = PERCENT_CHARACTER
                 \<and> (charCodeAt source (i + 1) = Some (of_char CHR ''q'')
                    \<or> charCodeAt source (i + 1) = Some (of_char CHR ''w'')) then
           (let opener = (line lx, column lx);
                closeDelim = closingDelimiter (charCodeAt source (i + 2));
                lx1 = lx\<lparr>index := i + 3, column := column lx + 3\<rparr>
            in case literalBody True ''%q/%w literal too long'' source closeDelim opener lx1 0 of
                 Inl e \<Rightarrow> Inl e
               | Inr lx2 \<Rightarrow>
                   if index lx2 \<ge> length source
                   then Inl (lexError ''unterminated %q/%w literal'' lx2 (Some opener))
                   else push maxTokens source (bump lx2) TString i (index lx2 + 1))
         else if cc = LEFT_CURLY_BRACE \<or> cc = RIGHT_CURLY_BRACE \<or> cc = LESS_THAN_CHARACTER
                 \<or> cc = GREATER_THAN_CHARACTER \<or> cc = MINUS_CHARACTER \<or> cc = PLUS_CHARACTER
                 \<or> cc = AMPERSAND_CHARACTER \<or> cc = ASTERISK_CHARACTER
                 \<or> cc = FORWARD_SLASH_CHARACTER \<or> cc = SEMICOLON_CHARACTER then Inr (bump lx)
         else if isIdentStart cc then
           (let lx1 = scanTo isIdentChar source lx
            in push maxTokens source lx1 (wordKind (slice source i (index lx1))) i (index lx1))
         else if isDigit cc then
           (let lx1 = scanTo isDigit source lx
            in push maxTokens source lx1 TInteger i (index lx1))
         else Inl (lexError ''unknown character'' lx None))"

subsection \<open>Every iteration moves the index forward\<close>

lemma push_fields:
  "push m source lx k s e = Inr lx' \<Longrightarrow>
     index lx' = index lx \<and> iterations lx' = iterations lx \<and> line lx' = line lx
     \<and> column lx' = column lx
     \<and> tokens lx' = tokens lx @ [\<lparr>tok_kind = k, tok_text = slice source s e, tok_start = s,
                                  tok_end = e, tok_line = line lx, tok_column = column lx\<rparr>]"
  by (auto simp: push_def split: if_splits)

lemma scanWhile_ge: "i \<le> scanWhile P source i"
proof (induction P source i rule: scanWhile.induct)
  case (1 P source i)
  show ?case
  proof (cases "i < length source \<and> P (source ! i)")
    case True
    with 1 have "i + 1 \<le> scanWhile P source (i + 1)" by simp
    with True show ?thesis by (subst scanWhile.simps) simp
  next
    case False
    then show ?thesis by (subst scanWhile.simps) auto
  qed
qed

lemma scanWhile_gt: "i < length source \<Longrightarrow> P (source ! i) \<Longrightarrow> i < scanWhile P source i"
  using scanWhile_ge [of "i + 1" P source] by (subst scanWhile.simps) simp

lemma scanWhile_le: "i \<le> length source \<Longrightarrow> scanWhile P source i \<le> length source"
proof (induction P source i rule: scanWhile.induct)
  case (1 P source i)
  show ?case
  proof (cases "i < length source \<and> P (source ! i)")
    case True
    with 1 have "scanWhile P source (i + 1) \<le> length source" by simp
    with True show ?thesis by (subst scanWhile.simps) simp
  next
    case False
    with "1.prems" show ?thesis by (subst scanWhile.simps) auto
  qed
qed

lemma scanTo_fields:
  "index lx \<le> index (scanTo P source lx) \<and> iterations (scanTo P source lx) = iterations lx
   \<and> tokens (scanTo P source lx) = tokens lx"
  by (simp add: scanTo_def Let_def scanWhile_ge)

lemma scanTo_gt:
  "index lx < length source \<Longrightarrow> P (source ! index lx) \<Longrightarrow> index lx < index (scanTo P source lx)"
  by (simp add: scanTo_def Let_def scanWhile_gt)

lemma literalBody_fields:
  "literalBody esc msg source closer opener lx len = Inr lx' \<Longrightarrow>
     index lx \<le> index lx' \<and> iterations lx' = iterations lx \<and> tokens lx' = tokens lx"
proof (induction esc msg source closer opener lx len rule: literalBody.induct)
  case (1 esc msg source closer opener lx len)
  show ?case
  proof (cases "index lx < length source \<and> charCodeAt source (index lx) \<noteq> closer")
    case False
    with "1.prems" show ?thesis by (simp add: literalBody.simps [of _ _ _ _ _ lx])
  next
    case True
    note loop = True
    show ?thesis
    proof (cases "len + 1 > MAX_STRING_LENGTH")
      case True
      with loop "1.prems" show ?thesis by (simp add: literalBody.simps [of _ _ _ _ _ lx])
    next
      case False
      define lx1 where "lx1 = (if esc \<and> charCodeAt source (index lx) = Some BACKSLASH_CHARACTER
                     then lx\<lparr>index := index lx + 1, column := column lx + 1\<rparr> else lx)"
      define lx2 where "lx2 = (if charCodeAt source (index lx1) = Some LINE_FEED
                     then lx1\<lparr>line := line lx1 + 1, column := 1\<rparr>
                     else lx1\<lparr>column := column lx1 + 1\<rparr>)"
      have "literalBody esc msg source closer opener lx len
            = literalBody esc msg source closer opener (lx2\<lparr>index := index lx2 + 1\<rparr>) (len + 1)"
        using loop False by (subst literalBody.simps) (simp add: Let_def lx1_def lx2_def)
      with "1.prems"
      have run: "literalBody esc msg source closer opener (lx2\<lparr>index := index lx2 + 1\<rparr>) (len + 1) = Inr lx'"
        by simp
      from "1.IH" [OF loop _ lx1_def lx2_def run] False
      have "index (lx2\<lparr>index := index lx2 + 1\<rparr>) \<le> index lx'
            \<and> iterations lx' = iterations (lx2\<lparr>index := index lx2 + 1\<rparr>)
            \<and> tokens lx' = tokens (lx2\<lparr>index := index lx2 + 1\<rparr>)"
        by simp
      then show ?thesis by (auto simp: lx1_def lx2_def split: if_splits)
    qed
  qed
qed

lemma bump_fields:
  "index (bump lx) = index lx + 1 \<and> iterations (bump lx) = iterations lx
   \<and> tokens (bump lx) = tokens lx \<and> line (bump lx) = line lx"
  by (simp add: bump_def)

lemma lexColon_advances:
  assumes "lexColon m source lx = Inr lx'"
  shows "index lx < index lx' \<and> iterations lx' = iterations lx"
  using assms scanTo_fields [of "bump lx" isSymbolChar source]
  by (auto simp: lexColon_def Let_def bump_fields
           split: if_splits sum.splits option.splits
           dest!: push_fields literalBody_fields)

lemma isIdentStart_isIdentChar: "isIdentStart c \<Longrightarrow> isIdentChar c"
  by (auto simp: isIdentStart_def isIdentChar_def)

lemma lexStep_advances:
  assumes "index lx < length source" and "lexStep m source lx = Inr lx'"
  shows "index lx < index lx' \<and> iterations lx' = iterations lx"
proof -
  have hash: "index lx < index (scanTo (\<lambda>c. c \<noteq> LINE_FEED) source lx)"
    if "source ! index lx = HASH_CHARACTER"
    using that assms(1) by (intro scanTo_gt) simp_all
  have ident: "index lx < index (scanTo isIdentChar source lx)" if "isIdentStart (source ! index lx)"
    using that assms(1) by (intro scanTo_gt) (simp_all add: isIdentStart_isIdentChar)
  have digit: "index lx < index (scanTo isDigit source lx)" if "isDigit (source ! index lx)"
    using that assms(1) by (intro scanTo_gt) simp_all
  show ?thesis
    using assms(2) hash ident digit
      scanTo_fields [of lx "\<lambda>c. c \<noteq> LINE_FEED" source]
      scanTo_fields [of lx isIdentChar source] scanTo_fields [of lx isDigit source]
    by (auto simp: lexStep_def Let_def bump_fields
             split: if_splits sum.splits
             dest!: push_fields literalBody_fields lexColon_advances)
qed

subsection \<open>The main loop and \<open>tokenize\<close>\<close>

function tokenizeLoop :: "nat \<Rightarrow> jsstring \<Rightarrow> lexer \<Rightarrow> error + lexer" where
  "tokenizeLoop maxTokens source lx =
     (if index lx < length source then
        if iterations lx + 1 > length source * MAX_ITERATIONS
        then Inl (lexError ''runaway lexer'' (lx\<lparr>iterations := iterations lx + 1\<rparr>) None)
        else (case lexStep maxTokens source (lx\<lparr>iterations := iterations lx + 1\<rparr>) of
                Inl e \<Rightarrow> Inl e
              | Inr lx' \<Rightarrow> tokenizeLoop maxTokens source lx')
      else Inr lx)"
  by pat_completeness auto
termination
proof (relation "measure (\<lambda>(maxTokens, source, lx). length source - index lx)")
  fix maxTokens :: nat and source :: jsstring and lx lx' :: lexer
  assume "index lx < length source"
    and "lexStep maxTokens source (lx\<lparr>iterations := iterations lx + 1\<rparr>) = Inr lx'"
  then show "((maxTokens, source, lx'), (maxTokens, source, lx))
             \<in> measure (\<lambda>(maxTokens, source, lx). length source - index lx)"
    using lexStep_advances [of "lx\<lparr>iterations := iterations lx + 1\<rparr>" source maxTokens lx']
    by (auto intro: diff_less_mono2)
qed simp

declare tokenizeLoop.simps [simp del]

definition initialLexer :: lexer where
  "initialLexer = \<lparr>tokens = [], index = 0, iterations = 0, line = 1, column = 1\<rparr>"

text \<open>
  \<open>tokenizeWith maxTokens\<close> is \<open>tokenize\<close> with the token quota as a parameter;
  \<open>tokenizeRun\<close> is the state in which the main loop ends.
\<close>

definition tokenizeRun :: "nat \<Rightarrow> jsstring \<Rightarrow> error + lexer" where
  "tokenizeRun maxTokens source = tokenizeLoop maxTokens source initialLexer"

definition tokenizeWith :: "nat \<Rightarrow> jsstring \<Rightarrow> error + Token list" where
  "tokenizeWith maxTokens source =
     (case tokenizeRun maxTokens source of
        Inl e \<Rightarrow> Inl e
      | Inr lx \<Rightarrow>
          (case push maxTokens source lx TEndOfFile (index lx) (index lx) of
             Inl e \<Rightarrow> Inl e
           | Inr lx' \<Rightarrow> Inr (tokens lx')))"

definition tokenize :: "jsstring \<Rightarrow> error + Token list" where
  "tokenize source = tokenizeWith MAX_TOKENS source"

section \<open>String normalization\<close>

text \<open>The four index loops of \<open>strip\<close>; each returns the index it moved.\<close>

function skipPairsStart :: "jsstring \<Rightarrow> nat \<Rightarrow> nat \<Rightarrow> nat" where
  "skipPairsStart raw startIndex endIndex =
     (if startIndex + 1 < endIndex
         \<and> charCodeAt raw startIndex = Some GREATER_THAN_CHARACTER
         \<and> charCodeAt raw (startIndex + 1) = Some LESS_THAN_CHARACTER
      then skipPairsStart raw (startIndex + 2) endIndex else startIndex)"
  by pat_completeness auto
termination
  by (relation "measure (\<lambda>(raw, startIndex, endIndex). endIndex - startIndex)") auto

declare skipPairsStart.simps [simp del]

function skipPairsEnd :: "jsstring \<Rightarrow> nat \<Rightarrow> nat \<Rightarrow> nat" where
  "skipPairsEnd raw startIndex endIndex =
     (if endIndex - 2 > startIndex
         \<and> charCodeAt raw (endIndex - 2) = Some GREATER_THAN_CHARACTER
         \<and> charCodeAt raw (endIndex - 1) = Some LESS_THAN_CHARACTER
      then skipPairsEnd raw startIndex (endIndex - 2) else endIndex)"
  by pat_completeness auto
termination
  by (relation "measure (\<lambda>(raw, startIndex, endIndex). endIndex)") auto

declare skipPairsEnd.simps [simp del]

function skipCharStart :: "jsstring \<Rightarrow> CharCode \<Rightarrow> nat \<Rightarrow> nat \<Rightarrow> nat" where
  "skipCharStart raw c startIndex endIndex =
     (if startIndex < endIndex \<and> charCodeAt raw startIndex = Some c
      then skipCharStart raw c (startIndex + 1) endIndex else startIndex)"
  by pat_completeness auto
termination
  by (relation "measure (\<lambda>(raw, c, startIndex, endIndex). endIndex - startIndex)") auto

declare skipCharStart.simps [simp del]

function skipCharEnd :: "jsstring \<Rightarrow> CharCode \<Rightarrow> nat \<Rightarrow> nat \<Rightarrow> nat" where
  "skipCharEnd raw c startIndex endIndex =
     (if endIndex > startIndex \<and> charCodeAt raw (endIndex - 1) = Some c
      then skipCharEnd raw c startIndex (endIndex - 1) else endIndex)"
  by pat_completeness auto
termination
  by (relation "measure (\<lambda>(raw, c, startIndex, endIndex). endIndex)") auto

declare skipCharEnd.simps [simp del]

text \<open>\<open>while (content.length >= 2) { ... content = content.slice(1, -1) ... }\<close>\<close>

function stripInnerQuotes :: "jsstring \<Rightarrow> jsstring" where
  "stripInnerQuotes content =
     (if length content \<ge> 2 then
        let innerFirstChar = content ! 0; innerLastChar = content ! (length content - 1)
        in if (innerFirstChar = SINGLE_QUOTE_CHARACTER \<or> innerFirstChar = DOUBLE_QUOTE_CHARACTER)
              \<and> innerFirstChar = innerLastChar
           then stripInnerQuotes (slice content 1 (length content - 1))
           else content
      else content)"
  by pat_completeness auto
termination
  by (relation "measure length") (auto simp: slice_def)

declare stripInnerQuotes.simps [simp del]

text \<open>
  In the percent-literal branch a missing delimiter (\<open>charCodeAt(2)\<close> is \<open>NaN\<close>) equals
  no code unit, so the delimiter loops do not move.
\<close>

definition strip :: "jsstring \<Rightarrow> jsstring" where
  "strip raw =
     (if startsWith raw (str ''%q'') \<or> startsWith raw (str ''%w'') then
        let openDelim = charCodeAt raw 2;
            closeDelim = closingDelimiter openDelim;
            startIndex = 3;
            endIndex = length raw - 1;
            (s, e) =
              (if openDelim = Some LESS_THAN_CHARACTER \<and> closeDelim = Some GREATER_THAN_CHARACTER
               then
                 let s1 = skipPairsStart raw startIndex endIndex;
                     e1 = skipPairsEnd raw s1 endIndex;
                     s2 = (if s1 < e1 \<and> charCodeAt raw s1 = Some GREATER_THAN_CHARACTER
                           then s1 + 1 else s1);
                     e2 = (if e1 > s2 \<and> charCodeAt raw (e1 - 1) = Some GREATER_THAN_CHARACTER
                           then e1 - 1 else e1)
                 in (s2, e2)
               else
                 (case (openDelim, closeDelim) of
                    (Some od, Some cd) \<Rightarrow>
                      let s1 = skipCharStart raw od startIndex endIndex;
                          e1 = skipCharEnd raw cd s1 endIndex
                      in (s1, e1)
                  | _ \<Rightarrow> (startIndex, endIndex)));
            content = trim (slice raw s e)
        in if length content \<ge> 6 \<and> startsWith content [39, 39, 39] \<and> endsWith content [39, 39, 39]
           then slice content 3 (length content - 3)
           else content
      else if charCodeAt raw 0 = Some COLON_CHARACTER \<and> length raw > 1 then
        if charCodeAt raw 1 = Some SINGLE_QUOTE_CHARACTER
           \<or> charCodeAt raw 1 = Some DOUBLE_QUOTE_CHARACTER
        then slice raw 2 (length raw - 1)
        else drop 1 raw
      else if charCodeAt raw 0 = Some SINGLE_QUOTE_CHARACTER
              \<or> charCodeAt raw 0 = Some DOUBLE_QUOTE_CHARACTER then
        let quote = raw ! 0;
            startIndex = skipCharStart raw quote 1 (length raw - 1);
            endIndex = skipCharEnd raw quote startIndex (length raw - 1)
        in stripInnerQuotes (slice raw startIndex endIndex)
      else raw)"

text \<open>The loop of \<open>fromPercentW\<close> over the code units of \<open>content\<close>.\<close>

fun percentWItems :: "jsstring \<Rightarrow> jsstring list \<Rightarrow> jsstring \<Rightarrow> bool \<Rightarrow> jsstring list" where
  "percentWItems [] items currentItem inItem =
     (if inItem \<and> currentItem \<noteq> [] then items @ [currentItem] else items)"
| "percentWItems (c # cs) items currentItem inItem =
     (if c = SPACE_CHARACTER \<or> c = CHARACTER_TAB \<or> c = LINE_FEED then
        if inItem then percentWItems cs (items @ [currentItem]) [] False
        else percentWItems cs items currentItem inItem
      else percentWItems cs items (currentItem @ [c]) True)"

definition fromPercentW :: "jsstring \<Rightarrow> jsstring list" where
  "fromPercentW raw =
     (if \<not> startsWith raw (str ''%w'') then [raw]
      else let content = trim (slice raw 3 (length raw - 1))
           in if content = [] then [] else percentWItems content [] [] False)"

text \<open>The body of the loop \<open>format version strings\<close> of \<open>parseDecl\<close>, for one string.\<close>

definition formatVersion :: "jsstring \<Rightarrow> jsstring" where
  "formatVersion v =
     (let j = scanWhile (\<lambda>c. c < DIGIT_ZERO_CHARACTER \<or> c > DIGIT_NINE_CHARACTER) v 0
      in if j > 0 \<and> j < length v \<and> v ! (j - 1) \<noteq> SPACE_CHARACTER
         then slice v 0 j @ [SPACE_CHARACTER] @ drop j v
         else v)"

text \<open>\<open>s.replace(/^:/, '')\<close>\<close>

definition dropLeadingColon :: "jsstring \<Rightarrow> jsstring" where
  "dropLeadingColon s = (if charCodeAt s 0 = Some COLON_CHARACTER then drop 1 s else s)"

section \<open>Parser\<close>

record GemDeclaration =
  name :: jsstring
  versions :: "jsstring list"
  git :: "jsstring option"
  path :: "jsstring option"
  require :: "bool option"
  groups :: "jsstring list option"
  platforms :: "jsstring list"

text \<open>\<open>runtime\<close> and \<open>development\<close> are the two lists of \<open>ParseOutput.groups\<close>.\<close>

record ParseOutput =
  selfName :: "jsstring option"
  selfVersion :: "jsstring option"
  runtime :: "GemDeclaration list"
  development :: "GemDeclaration list"

text \<open>
  The state of a \<open>Parser\<close> object: its \<open>cursor\<close> and \<open>depth\<close>, and the output record
  \<open>out\<close> that \<open>parse\<close> creates and every method updates in place. The token array is
  read only and passed beside the state. A method is a function from the state to an
  error or to its result and the new state.
\<close>

record Parser =
  cursor :: nat
  depth :: int
  out :: ParseOutput

type_synonym 'a step = "Parser \<Rightarrow> error + ('a \<times> Parser)"

definition ret :: "'a \<Rightarrow> 'a step" where
  "ret x p = Inr (x, p)"

definition andThen :: "'a step \<Rightarrow> ('a \<Rightarrow> 'b step) \<Rightarrow> 'b step" where
  "andThen m f p = (case m p of Inl e \<Rightarrow> Inl e | Inr (x, p') \<Rightarrow> f x p')"

text \<open>The short-circuit operators \<open>a() || b()\<close> and \<open>a() && b()\<close>.\<close>

definition orElse :: "bool step \<Rightarrow> bool step \<Rightarrow> bool step" where
  "orElse a b = andThen a (\<lambda>x. if x then ret True else b)"

definition andAlso :: "bool step \<Rightarrow> bool step \<Rightarrow> bool step" where
  "andAlso a b = andThen a (\<lambda>x. if x then b else ret False)"

definition peekKind :: "Token list \<Rightarrow> TokenKind step" where
  "peekKind toks p =
     (if cursor p < length toks then Inr (tok_kind (toks ! cursor p), p) else Inl TypeError)"

definition peekText :: "Token list \<Rightarrow> jsstring step" where
  "peekText toks p =
     (if cursor p < length toks then Inr (tok_text (toks ! cursor p), p) else Inl TypeError)"

text \<open>
  \<open>advance\<close> where the token it returns is dropped, and \<open>nextToken\<close> where a property
  of the returned token is read at once (a \<open>TypeError\<close> past the end of the array).
\<close>

definition advance :: "unit step" where
  "advance p = Inr ((), p\<lparr>cursor := cursor p + 1\<rparr>)"

definition nextToken :: "Token list \<Rightarrow> Token step" where
  "nextToken toks p =
     (if cursor p < length toks then Inr (toks ! cursor p, p\<lparr>cursor := cursor p + 1\<rparr>)
      else Inl TypeError)"

definition throwError :: "Token list \<Rightarrow> string \<Rightarrow> 'a step" where
  "throwError toks msg p =
     (if 1 \<le> cursor p \<and> cursor p - 1 < length toks then
        let t = toks ! (cursor p - 1)
        in Inl (RubyDslError (str msg) (tok_end t) (tok_line t) (tok_column t)
                  (firstCharHex (tok_text t)) None)
      else Inl TypeError)"

definition match :: "Token list \<Rightarrow> TokenKind \<Rightarrow> bool step" where
  "match toks k =
     andThen (peekKind toks) (\<lambda>k'. if k' = k then andThen advance (\<lambda>_. ret True) else ret False)"

definition matchWord :: "Token list \<Rightarrow> string \<Rightarrow> bool step" where
  "matchWord toks word =
     andThen (peekKind toks) (\<lambda>k.
       if k = TIdentifier then
         andThen (peekText toks) (\<lambda>t.
           if t = str word then andThen advance (\<lambda>_. ret True) else ret False)
       else ret False)"

definition matchSymbol :: "Token list \<Rightarrow> string \<Rightarrow> bool step" where
  "matchSymbol toks symText =
     andThen (peekText toks) (\<lambda>t.
       if t = str symText then andThen advance (\<lambda>_. ret True) else ret False)"

definition enter :: "Token list \<Rightarrow> unit step" where
  "enter toks p =
     (let p' = p\<lparr>depth := depth p + 1\<rparr>
      in if depth p' > int MAX_BLOCK_DEPTH then throwError toks ''nesting too deep'' p'
         else Inr ((), p'))"

definition leave :: "unit step" where
  "leave p = Inr ((), p\<lparr>depth := depth p - 1\<rparr>)"

lemma peekKind_Inr:
  "peekKind toks p = Inr (k, p') \<Longrightarrow>
     p' = p \<and> cursor p < length toks \<and> k = tok_kind (toks ! cursor p)"
  by (auto simp: peekKind_def split: if_splits)

lemma match_Inr:
  "match toks k p = Inr (b, p') \<Longrightarrow>
     cursor p < length toks \<and> out p' = out p \<and> depth p' = depth p
     \<and> (b \<longrightarrow> cursor p' = cursor p + 1 \<and> tok_kind (toks ! cursor p) = k)
     \<and> (\<not> b \<longrightarrow> p' = p \<and> tok_kind (toks ! cursor p) \<noteq> k)"
  by (auto simp: match_def andThen_def ret_def advance_def peekKind_def split: if_splits)

subsection \<open>The loops that only move the cursor\<close>

text \<open>
  \<open>while (peekKind() !== NewLine && peekKind() !== EndOfFile) advance()\<close>, in
  \<open>statement\<close>, \<open>parseSpec\<close> and \<open>skipLine\<close>.
\<close>

function skipToEol :: "Token list \<Rightarrow> unit step" where
  "skipToEol toks p =
     (case peekKind toks p of
        Inl e \<Rightarrow> Inl e
      | Inr (k, _) \<Rightarrow>
          if k \<noteq> TNewLine \<and> k \<noteq> TEndOfFile
          then skipToEol toks (p\<lparr>cursor := cursor p + 1\<rparr>)
          else Inr ((), p))"
  by pat_completeness auto
termination
  by (relation "measure (\<lambda>(toks, p). length toks - cursor p)")
     (auto dest!: peekKind_Inr)

declare skipToEol.simps [simp del]

text \<open>
  \<open>while (peekKind() !== EndOfFile && peekKind() !== End) advance()\<close>, over the
  \<open>else\<close> branch in \<open>parseSpec\<close>.
\<close>

function skipToEnd :: "Token list \<Rightarrow> unit step" where
  "skipToEnd toks p =
     (case peekKind toks p of
        Inl e \<Rightarrow> Inl e
      | Inr (k, _) \<Rightarrow>
          if k \<noteq> TEndOfFile \<and> k \<noteq> TEnd
          then skipToEnd toks (p\<lparr>cursor := cursor p + 1\<rparr>)
          else Inr ((), p))"
  by pat_completeness auto
termination
  by (relation "measure (\<lambda>(toks, p). length toks - cursor p)")
     (auto dest!: peekKind_Inr)

declare skipToEnd.simps [simp del]

definition skipLine :: "Token list \<Rightarrow> unit step" where
  "skipLine toks =
     andThen (match toks TIf) (\<lambda>isIf.
     andThen (if isIf then skipToEol toks else ret ()) (\<lambda>_.
     andThen (skipToEol toks) (\<lambda>_.
     andThen (match toks TNewLine) (\<lambda>_. ret ()))))"

function skipBlockLoop :: "Token list \<Rightarrow> int \<Rightarrow> unit step" where
  "skipBlockLoop toks d p =
     (if d = 0 then Inr ((), p)
      else case peekKind toks p of
        Inl e \<Rightarrow> Inl e
      | Inr (k, _) \<Rightarrow>
          if k = TEndOfFile then Inr ((), p)
          else if k = TDo \<or> k = TLeftParen
          then skipBlockLoop toks (d + 1) (p\<lparr>cursor := cursor p + 1\<rparr>)
          else if k = TEnd \<or> k = TRightParen
          then skipBlockLoop toks (d - 1) (p\<lparr>cursor := cursor p + 1\<rparr>)
          else skipBlockLoop toks d (p\<lparr>cursor := cursor p + 1\<rparr>))"
  by pat_completeness auto
termination
  by (relation "measure (\<lambda>(toks, d, p). length toks - cursor p)")
     (auto dest!: peekKind_Inr)

declare skipBlockLoop.simps [simp del]

definition skipBlock :: "Token list \<Rightarrow> unit step" where
  "skipBlock toks = skipBlockLoop toks 1"

definition looksSpecNew :: "Token list \<Rightarrow> bool step" where
  "looksSpecNew toks p =
     (case andAlso (orElse (matchWord toks ''Gem'') (matchWord toks ''Pod''))
            (andAlso (match toks TColon)
            (andAlso (match toks TColon)
            (andAlso (orElse (matchWord toks ''Specification'') (matchWord toks ''Spec''))
            (andAlso (match toks TDot)
                     (matchWord toks ''new''))))) p of
        Inl e \<Rightarrow> Inl e
      | Inr (ok, p') \<Rightarrow> if ok then Inr (True, p') else Inr (False, p'\<lparr>cursor := cursor p\<rparr>))"

subsection \<open>Labels\<close>

function labelsLoop :: "Token list \<Rightarrow> jsstring list \<Rightarrow> (jsstring list) step" where
  "labelsLoop toks arr p =
     (case peekKind toks p of
        Inl e \<Rightarrow> Inl e
      | Inr (k, _) \<Rightarrow>
          if k = TSymbol \<or> k = TString \<or> k = TIdentifier then
            (let t = tok_text (toks ! cursor p);
                 arr' = arr @ [if k = TIdentifier then t else strip t]
             in case match toks TComma (p\<lparr>cursor := cursor p + 1\<rparr>) of
                  Inl e \<Rightarrow> Inl e
                | Inr (again, p') \<Rightarrow> if again then labelsLoop toks arr' p' else Inr (arr', p'))
          else Inr (arr, p))"
  by pat_completeness auto
termination
  by (relation "measure (\<lambda>(toks, arr, p). length toks - cursor p)")
     (auto dest!: peekKind_Inr match_Inr)

declare labelsLoop.simps [simp del]

definition labels :: "Token list \<Rightarrow> (jsstring list) step" where
  "labels toks = labelsLoop toks []"

subsection \<open>A gem or pod line\<close>

text \<open>
  The loops \<open>while (peekKind() === K) { xs.push(f(advance().text)); if (!match(Comma)) break }\<close>
  of a version array (\<open>K\<close> is \<open>String\<close>) and of a platforms array (\<open>K\<close> is \<open>Symbol\<close>).
\<close>

function collectLoop ::
  "Token list \<Rightarrow> TokenKind \<Rightarrow> (jsstring \<Rightarrow> jsstring) \<Rightarrow> jsstring list \<Rightarrow> (jsstring list) step"
where
  "collectLoop toks wanted f xs p =
     (case peekKind toks p of
        Inl e \<Rightarrow> Inl e
      | Inr (k, _) \<Rightarrow>
          if k = wanted then
            (let xs' = xs @ [f (tok_text (toks ! cursor p))]
             in case match toks TComma (p\<lparr>cursor := cursor p + 1\<rparr>) of
                  Inl e \<Rightarrow> Inl e
                | Inr (again, p') \<Rightarrow> if again then collectLoop toks wanted f xs' p' else Inr (xs', p'))
          else Inr (xs, p))"
  by pat_completeness auto
termination
  by (relation "measure (\<lambda>(toks, wanted, f, xs, p). length toks - cursor p)")
     (auto dest!: peekKind_Inr match_Inr)

declare collectLoop.simps [simp del]

text \<open>The local variables of \<open>parseDecl\<close> that its argument loop fills.\<close>

record DeclArgs =
  argVersions :: "jsstring list"
  argGit :: "jsstring option"
  argPath :: "jsstring option"
  argReq :: "bool option"
  inlineGroups :: "jsstring list"
  inlinePlatforms :: "jsstring list"

text \<open>
  The value of a key of the argument list, once the key and its \<open>=\<close> or \<open>:\<close> have been
  read.
\<close>

definition parseKeyValue :: "Token list \<Rightarrow> jsstring \<Rightarrow> DeclArgs \<Rightarrow> DeclArgs step" where
  "parseKeyValue toks key a =
     (if key = str ''group'' then
        andThen (peekKind toks) (\<lambda>k.
          if k = TIdentifier then
            andThen (nextToken toks) (\<lambda>t. ret (a\<lparr>inlineGroups := inlineGroups a @ [tok_text t]\<rparr>))
          else if k = TSymbol then
            andThen (nextToken toks) (\<lambda>t.
              ret (a\<lparr>inlineGroups := inlineGroups a @ [strip (tok_text t)]\<rparr>))
          else ret a)
      else if key = str ''platforms'' then
        andThen (match toks TLeftBracket) (\<lambda>opened.
          if opened then
            andThen (collectLoop toks TSymbol strip (inlinePlatforms a)) (\<lambda>ps.
            andThen (match toks TRightBracket) (\<lambda>_. ret (a\<lparr>inlinePlatforms := ps\<rparr>)))
          else ret a)
      else
        andThen (nextToken toks) (\<lambda>t.
          let val = strip (tok_text t)
          in if key = str ''git'' \<or> key = str ''github'' then ret (a\<lparr>argGit := Some val\<rparr>)
             else if key = str ''path'' then ret (a\<lparr>argPath := Some val\<rparr>)
             else if key = str ''require'' then ret (a\<lparr>argReq := Some (val \<noteq> str ''false'')\<rparr>)
             else ret a))"

text \<open>
  One turn of \<open>while (this.match(TokenKind.Comma))\<close>, after the comma: the flag says
  whether the loop goes on (\<open>continue\<close>) or is left (\<open>break\<close>).
\<close>

definition parseArg :: "Token list \<Rightarrow> DeclArgs \<Rightarrow> (bool \<times> DeclArgs) step" where
  "parseArg toks a =
     andThen (peekKind toks) (\<lambda>k.
       if k = TString then
         andThen (nextToken toks) (\<lambda>t.
           let lit = tok_text t
           in ret (True, a\<lparr>argVersions := argVersions a @
                     (if startsWith lit (str ''%w'') then fromPercentW lit
                      else [trim (strip lit)])\<rparr>))
       else
         andThen (match toks TLeftBracket) (\<lambda>opened.
           if opened then
             andThen (collectLoop toks TString (\<lambda>t. trim (strip t)) (argVersions a)) (\<lambda>vs.
             andThen (match toks TRightBracket) (\<lambda>_. ret (True, a\<lparr>argVersions := vs\<rparr>)))
           else
             andThen (peekKind toks) (\<lambda>k2.
               if k2 = TSymbol \<or> k2 = TIdentifier then
                 andThen (nextToken toks) (\<lambda>t.
                   let key = (if k2 = TSymbol then dropLeadingColon (strip (tok_text t))
                              else tok_text t)
                   in andThen (orElse (match toks TEquals) (match toks TColon)) (\<lambda>sep.
                        if sep then andThen (parseKeyValue toks key a) (\<lambda>a'. ret (True, a'))
                        else ret (False, a)))
               else ret (False, a))))"

lemma andThen_Inr:
  "andThen m f p = Inr (y, p'') \<Longrightarrow> \<exists>x p'. m p = Inr (x, p') \<and> f x p' = Inr (y, p'')"
  by (auto simp: andThen_def split: sum.splits)

lemma nextToken_Inr:
  "nextToken toks p = Inr (t, p') \<Longrightarrow>
     cursor p < length toks \<and> t = toks ! cursor p \<and> p' = p\<lparr>cursor := cursor p + 1\<rparr>"
  by (auto simp: nextToken_def split: if_splits)

lemma collectLoop_frame:
  "collectLoop toks wanted f xs p = Inr (ys, p') \<Longrightarrow>
     cursor p \<le> cursor p' \<and> out p' = out p \<and> depth p' = depth p"
proof (induction toks wanted f xs p rule: collectLoop.induct)
  case (1 toks wanted f xs p)
  let ?xs' = "xs @ [f (tok_text (toks ! cursor p))]"
  note unfold = collectLoop.simps [of toks wanted f xs p]
  from "1.prems" obtain k where k: "peekKind toks p = Inr (k, p)"
    by (auto simp: unfold split: sum.splits dest: peekKind_Inr)
  show ?case
  proof (cases "k = wanted")
    case False
    with "1.prems" k show ?thesis by (simp add: unfold)
  next
    case True
    from "1.prems" k True obtain again p1 where
      m: "match toks TComma (p\<lparr>cursor := cursor p + 1\<rparr>) = Inr (again, p1)"
      and r: "(if again then collectLoop toks wanted f ?xs' p1 else Inr (?xs', p1)) = Inr (ys, p')"
      by (auto simp: unfold Let_def split: sum.splits)
    from match_Inr [OF m] have p1: "cursor p \<le> cursor p1 \<and> out p1 = out p \<and> depth p1 = depth p"
      by (cases again) auto
    show ?thesis
    proof (cases again)
      case False
      with r p1 show ?thesis by simp
    next
      case True
      with r have "collectLoop toks wanted f ?xs' p1 = Inr (ys, p')" by simp
      from "1.IH" [OF k refl \<open>k = wanted\<close> refl m refl True this] p1
      show ?thesis by simp
    qed
  qed
qed

lemma orElse_match_frame:
  "orElse (match toks k1) (match toks k2) p = Inr (b, p') \<Longrightarrow>
     cursor p \<le> cursor p' \<and> out p' = out p \<and> depth p' = depth p"
  by (auto simp: orElse_def ret_def split: if_splits dest!: andThen_Inr match_Inr)

lemma parseKeyValue_frame:
  "parseKeyValue toks key a p = Inr (a', p') \<Longrightarrow>
     cursor p \<le> cursor p' \<and> out p' = out p \<and> depth p' = depth p"
  by (auto simp: parseKeyValue_def ret_def Let_def split: if_splits
           dest!: andThen_Inr match_Inr nextToken_Inr peekKind_Inr collectLoop_frame)

lemma parseArg_frame:
  "parseArg toks a p = Inr ((b, a'), p') \<Longrightarrow>
     cursor p \<le> cursor p' \<and> out p' = out p \<and> depth p' = depth p"
  by (auto simp: parseArg_def ret_def Let_def split: if_splits
           dest!: andThen_Inr match_Inr nextToken_Inr peekKind_Inr collectLoop_frame
                  orElse_match_frame parseKeyValue_frame)

function parseArgs :: "Token list \<Rightarrow> DeclArgs \<Rightarrow> DeclArgs step" where
  "parseArgs toks a p =
     (case match toks TComma p of
        Inl e \<Rightarrow> Inl e
      | Inr (comma, p1) \<Rightarrow>
          if comma then
            (case parseArg toks a p1 of
               Inl e \<Rightarrow> Inl e
             | Inr ((continue, a'), p2) \<Rightarrow>
                 if continue then parseArgs toks a' p2 else Inr (a', p2))
          else Inr (a, p1))"
  by pat_completeness auto
termination
proof (relation "measure (\<lambda>(toks, a, p). length toks - cursor p)")
  fix toks :: "Token list" and a a' :: DeclArgs and p p1 p2 :: Parser
    and x :: "bool \<times> Parser" and y :: "(bool \<times> DeclArgs) \<times> Parser"
    and comma continue :: bool and z :: "bool \<times> DeclArgs"
  assume "match toks TComma p = Inr x" "(comma, p1) = x" "comma"
    "parseArg toks a p1 = Inr y" "(z, p2) = y" "(continue, a') = z" "continue"
  then have "match toks TComma p = Inr (True, p1)" "parseArg toks a p1 = Inr ((True, a'), p2)"
    by auto
  from match_Inr [OF this(1)] parseArg_frame [OF this(2)]
  show "((toks, a', p2), (toks, a, p)) \<in> measure (\<lambda>(toks, a, p). length toks - cursor p)"
    by auto
qed simp

declare parseArgs.simps [simp del]

definition emptyArgs :: DeclArgs where
  "emptyArgs = \<lparr>argVersions = [], argGit = None, argPath = None, argReq = None,
                inlineGroups = [], inlinePlatforms = []\<rparr>"

definition parseDecl :: "Token list \<Rightarrow> jsstring list \<Rightarrow> jsstring list \<Rightarrow> GemDeclaration step" where
  "parseDecl toks outerGroups outerPlatforms =
     andThen (match toks TLeftParen) (\<lambda>hasParens.
     andThen (nextToken toks) (\<lambda>nameTok.
       if tok_kind nameTok \<noteq> TString \<and> tok_kind nameTok \<noteq> TSymbol
          \<and> tok_kind nameTok \<noteq> TIdentifier
       then throwError toks ''name literal expected''
       else
         andThen (andAlso (match toks TDot) (matchWord toks ''freeze'')) (\<lambda>_.
         andThen (parseArgs toks emptyArgs) (\<lambda>a.
         andThen (if hasParens then match toks TRightParen else ret False) (\<lambda>_.
           ret \<lparr>name = (if tok_kind nameTok = TIdentifier then tok_text nameTok
                        else strip (tok_text nameTok)),
                versions = map formatVersion (argVersions a),
                git = argGit a,
                path = argPath a,
                require = argReq a,
                groups = Some (outerGroups @ inlineGroups a),
                platforms = outerPlatforms @ inlinePlatforms a\<rparr>)))))"

subsection \<open>Statements of a Gemfile or Podfile\<close>

definition hasDevGroups :: "GemDeclaration \<Rightarrow> bool" where
  "hasDevGroups decl =
     (case groups decl of
        None \<Rightarrow> False
      | Some gs \<Rightarrow> list_ex (\<lambda>g. g = str ''development'' \<or> g = str ''test'') gs)"

definition pushRuntime :: "GemDeclaration \<Rightarrow> unit step" where
  "pushRuntime decl p = Inr ((), p\<lparr>out := (out p)\<lparr>runtime := runtime (out p) @ [decl]\<rparr>\<rparr>)"

definition pushDevelopment :: "GemDeclaration \<Rightarrow> unit step" where
  "pushDevelopment decl p =
     Inr ((), p\<lparr>out := (out p)\<lparr>development := development (out p) @ [decl]\<rparr>\<rparr>)"

text \<open>The branch of \<open>statement\<close> for \<open>gem\<close> and \<open>pod\<close>, after the word has been matched.\<close>

definition declStatement :: "Token list \<Rightarrow> jsstring list \<Rightarrow> jsstring list \<Rightarrow> unit step" where
  "declStatement toks outerGroups outerPlatforms =
     andThen (parseDecl toks outerGroups outerPlatforms) (\<lambda>decl.
       let dev = hasDevGroups decl;
           decl1 = (if dev then decl\<lparr>groups := None\<rparr> else decl)
       in andThen (peekKind toks) (\<lambda>k.
            let hasTrailingConditional = (k = TIf);
                decl2 = (if hasTrailingConditional then decl1\<lparr>groups := None\<rparr> else decl1)
            in andThen (if hasTrailingConditional
                        then andThen advance (\<lambda>_. skipToEol toks) else ret ()) (\<lambda>_.
               andThen (if dev then pushDevelopment decl2 else pushRuntime decl2) (\<lambda>_.
               skipLine toks))))"

subsection \<open>Gem::Specification and Pod::Spec\<close>

definition depMethods :: "jsstring list" where
  "depMethods = [str ''add_dependency'', str ''add_runtime_dependency'',
                 str ''add_development_dependency'', str ''dependency'']"

definition setSelfName :: "jsstring \<Rightarrow> unit step" where
  "setSelfName s p = Inr ((), p\<lparr>out := (out p)\<lparr>selfName := Some s\<rparr>\<rparr>)"

definition setSelfVersion :: "jsstring \<Rightarrow> unit step" where
  "setSelfVersion s p = Inr ((), p\<lparr>out := (out p)\<lparr>selfVersion := Some s\<rparr>\<rparr>)"

text \<open>
  \<open>blockVar\<close> is \<open>None\<close> for \<open>null\<close>; \<open>!blockVar\<close> also holds of the empty string.
\<close>

definition parseSpecStatement :: "Token list \<Rightarrow> jsstring option \<Rightarrow> unit step" where
  "parseSpecStatement toks blockVar =
     andThen (peekKind toks) (\<lambda>k.
     andThen (peekText toks) (\<lambda>txt.
       if k = TIdentifier \<and> (blockVar = None \<or> blockVar = Some [] \<or> Some txt = blockVar) then
         andThen advance (\<lambda>_.
         andThen (match toks TDot) (\<lambda>dot.
           if \<not> dot then skipLine toks
           else
             andThen (nextToken toks) (\<lambda>method.
               if tok_kind method \<noteq> TIdentifier then skipLine toks
               else
                 andThen (andAlso (match toks TEquals)
                            (andThen (peekKind toks) (\<lambda>k2. ret (k2 = TString)))) (\<lambda>assign.
                   if assign then
                     andThen (nextToken toks) (\<lambda>t.
                       let lit = strip (tok_text t)
                       in andThen (if tok_text method = str ''name'' then setSelfName lit
                                   else if tok_text method = str ''version'' then setSelfVersion lit
                                   else ret ()) (\<lambda>_.
                          skipLine toks))
                   else if tok_text method = str ''send'' then
                     andThen (match toks TLeftParen) (\<lambda>_.
                     andThen (peekKind toks) (\<lambda>k3.
                     andThen (if k3 = TSymbol then
                                andThen (nextToken toks) (\<lambda>t.
                                  let symName = dropLeadingColon (strip (tok_text t))
                                  in if includesStr symName (str ''dependency'') then
                                       andThen (match toks TComma) (\<lambda>_.
                                       andThen (parseDecl toks [] []) (\<lambda>decl.
                                         if includesStr symName (str ''development'')
                                         then pushDevelopment decl else pushRuntime decl))
                                     else ret ())
                              else ret ()) (\<lambda>_.
                     skipLine toks)))
                   else if tok_text method \<in> set depMethods then
                     andThen (parseDecl toks [] []) (\<lambda>decl.
                       let decl1 = (if tok_text method = str ''dependency''
                                    then decl\<lparr>groups := None\<rparr> else decl)
                       in andThen (if includesStr (tok_text method) (str ''development'')
                                   then pushDevelopment decl1 else pushRuntime decl1) (\<lambda>_.
                          skipLine toks))
                   else skipLine toks))))
       else skipLine toks))"

text \<open>
  The opening of \<open>parseSpec\<close>, up to its loop: the literal name, the \<open>do |var|\<close>, the
  \<open>enter\<close>. It returns \<open>blockVar\<close>.
\<close>

definition parseSpecHead :: "Token list \<Rightarrow> (jsstring option) step" where
  "parseSpecHead toks =
     andThen (peekKind toks) (\<lambda>k.
     andThen (if k = TString
              then andThen (nextToken toks) (\<lambda>t. setSelfName (strip (tok_text t)))
              else ret ()) (\<lambda>_.
     andThen (match toks TDo) (\<lambda>isDo.
       if isDo then
         andThen (matchSymbol toks ''|'') (\<lambda>bar.
         andThen (if bar then
                    andThen (peekKind toks) (\<lambda>k2.
                    andThen (if k2 = TIdentifier
                             then andThen (nextToken toks) (\<lambda>t. ret (Some (tok_text t)))
                             else ret None) (\<lambda>blockVar.
                    andThen (matchSymbol toks ''|'') (\<lambda>_. ret blockVar)))
                  else ret None) (\<lambda>blockVar.
         andThen (enter toks) (\<lambda>_. ret blockVar)))
       else ret None)))"

subsection \<open>The loops over statements\<close>

text \<open>
  The loops over statements are given fuel: a call burns one unit, and \<open>None\<close> says that
  the fuel ran out before the method returned. \<open>Some (Inl e)\<close> is a throw, \<open>Some (Inr p)\<close> a
  return in state \<open>p\<close>.
\<close>

type_synonym run = "(error + Parser) option"

definition perform :: "'a step \<Rightarrow> ('a \<Rightarrow> Parser \<Rightarrow> run) \<Rightarrow> Parser \<Rightarrow> run" where
  "perform m f p = (case m p of Inl e \<Rightarrow> Some (Inl e) | Inr (x, p') \<Rightarrow> f x p')"

definition thenRun :: "(Parser \<Rightarrow> run) \<Rightarrow> (Parser \<Rightarrow> run) \<Rightarrow> Parser \<Rightarrow> run" where
  "thenRun f g p =
     (case f p of None \<Rightarrow> None | Some (Inl e) \<Rightarrow> Some (Inl e) | Some (Inr p') \<Rightarrow> g p')"

definition finish :: "Parser \<Rightarrow> run" where
  "finish p = Some (Inr p)"

text \<open>
  \<open>specIfLoop\<close> is the loop over the first branch of an \<open>if\<close> in \<open>parseSpec\<close>;
  \<open>specLoop\<close> is the main loop of \<open>parseSpec\<close>.
\<close>

fun specIfLoop :: "nat \<Rightarrow> Token list \<Rightarrow> jsstring option \<Rightarrow> Parser \<Rightarrow> run" where
  "specIfLoop 0 toks blockVar p = None"
| "specIfLoop (Suc n) toks blockVar p =
     perform (peekKind toks) (\<lambda>k.
       if k \<noteq> TEndOfFile \<and> k \<noteq> TElse \<and> k \<noteq> TEnd
       then perform (parseSpecStatement toks blockVar) (\<lambda>_. specIfLoop n toks blockVar)
       else finish) p"

fun specLoop :: "nat \<Rightarrow> Token list \<Rightarrow> jsstring option \<Rightarrow> Parser \<Rightarrow> run" where
  "specLoop 0 toks blockVar p = None"
| "specLoop (Suc n) toks blockVar p =
     perform (peekKind toks) (\<lambda>k.
       if k = TEndOfFile then finish
       else
         perform (match toks TEnd) (\<lambda>isEnd.
           if isEnd then finish
           else
             perform (match toks TIf) (\<lambda>isIf.
               if isIf then
                 perform (skipToEol toks) (\<lambda>_.
                 perform (match toks TNewLine) (\<lambda>_.
                 thenRun (specIfLoop n toks blockVar)
                   (perform (match toks TElse) (\<lambda>isElse.
                      perform (if isElse then skipToEnd toks else ret ()) (\<lambda>_.
                      perform (match toks TEnd) (\<lambda>_. specLoop n toks blockVar))))))
               else
                 perform (parseSpecStatement toks blockVar) (\<lambda>_. specLoop n toks blockVar)))) p"

definition parseSpec :: "nat \<Rightarrow> Token list \<Rightarrow> Parser \<Rightarrow> run" where
  "parseSpec n toks =
     perform (parseSpecHead toks) (\<lambda>blockVar.
       thenRun (specLoop n toks blockVar)
         (\<lambda>p'. if depth p' \<noteq> 0 then perform leave (\<lambda>_. finish) p' else finish p'))"

text \<open>
  \<open>blockLoop\<close> is the loop \<open>while (!this.match(TokenKind.End)) this.statement(...)\<close> of a
  \<open>group\<close>, \<open>target\<close> or \<open>platforms\<close> block.
\<close>

fun statement :: "nat \<Rightarrow> Token list \<Rightarrow> jsstring list \<Rightarrow> jsstring list \<Rightarrow> Parser \<Rightarrow> run"
  and blockLoop :: "nat \<Rightarrow> Token list \<Rightarrow> jsstring list \<Rightarrow> jsstring list \<Rightarrow> Parser \<Rightarrow> run"
where
  "statement 0 toks outerGroups outerPlatforms p = None"
| "statement (Suc n) toks outerGroups outerPlatforms p =
     perform (orElse (matchWord toks ''gem'') (matchWord toks ''pod'')) (\<lambda>isDecl.
       if isDecl then perform (declStatement toks outerGroups outerPlatforms) (\<lambda>_. finish)
       else
         perform (orElse (matchWord toks ''group'') (matchWord toks ''target'')) (\<lambda>isGroup.
           if isGroup then
             perform (labels toks) (\<lambda>newGroups.
             perform (match toks TDo) (\<lambda>isDo.
               if isDo then
                 perform (enter toks) (\<lambda>_.
                   thenRun (blockLoop n toks newGroups outerPlatforms)
                     (perform leave (\<lambda>_. finish)))
               else finish))
           else
             perform (matchWord toks ''platforms'') (\<lambda>isPlatforms.
               if isPlatforms then
                 perform (labels toks) (\<lambda>pls.
                 perform (match toks TDo) (\<lambda>isDo.
                   if isDo then
                     perform (enter toks) (\<lambda>_.
                       thenRun (blockLoop n toks outerGroups pls)
                         (perform leave (\<lambda>_. finish)))
                   else finish))
               else
                 perform (matchWord toks ''source'') (\<lambda>isSource.
                   if isSource then perform (skipLine toks) (\<lambda>_. finish)
                   else
                     perform (looksSpecNew toks) (\<lambda>isSpec.
                       if isSpec then parseSpec n toks
                       else
                         perform (orElse (match toks TDo) (match toks TLeftParen)) (\<lambda>isBlock.
                           if isBlock then perform (skipBlock toks) (\<lambda>_. finish)
                           else perform (skipLine toks) (\<lambda>_. finish))))))) p"
| "blockLoop 0 toks outerGroups outerPlatforms p = None"
| "blockLoop (Suc n) toks outerGroups outerPlatforms p =
     perform (match toks TEnd) (\<lambda>isEnd.
       if isEnd then finish
       else thenRun (statement n toks outerGroups outerPlatforms)
              (blockLoop n toks outerGroups outerPlatforms)) p"

fun parseLoop :: "nat \<Rightarrow> Token list \<Rightarrow> Parser \<Rightarrow> run" where
  "parseLoop 0 toks p = None"
| "parseLoop (Suc n) toks p =
     perform (peekKind toks) (\<lambda>k.
       if k \<noteq> TEndOfFile
       then thenRun (statement n toks [] []) (parseLoop n toks)
       else finish) p"

definition newParser :: Parser where
  "newParser = \<lparr>cursor = 0, depth = 0,
                out = \<lparr>selfName = None, selfVersion = None, runtime = [], development = []\<rparr>\<rparr>"

text \<open>
  \<open>new Parser(tokens).parse()\<close> and \<open>parseRubyDsl\<close>, with \<open>fuel\<close> for the loops over
  statements: \<open>None\<close> when the fuel runs out, else the error thrown or the output.
\<close>

definition parse :: "nat \<Rightarrow> Token list \<Rightarrow> (error + ParseOutput) option" where
  "parse fuel toks =
     (case parseLoop fuel toks newParser of
        None \<Rightarrow> None
      | Some (Inl e) \<Rightarrow> Some (Inl e)
      | Some (Inr p) \<Rightarrow> Some (Inr (out p)))"

definition parseRubyDsl :: "nat \<Rightarrow> jsstring \<Rightarrow> (error + ParseOutput) option" where
  "parseRubyDsl fuel source =
     (case tokenize source of Inl e \<Rightarrow> Some (Inl e) | Inr toks \<Rightarrow> parse fuel toks)"

subsection \<open>More fuel never changes a result\<close>

declare specIfLoop.simps [simp del] specLoop.simps [simp del] statement.simps [simp del]
  blockLoop.simps [simp del] parseLoop.simps [simp del]

text \<open>\<open>settles a b\<close>: whatever the run \<open>a\<close> ends in, the run \<open>b\<close> ends in too.\<close>

definition settles :: "'a option \<Rightarrow> 'a option \<Rightarrow> bool" where
  "settles a b = (a = None \<or> a = b)"

lemma settles_refl: "settles a a"
  by (simp add: settles_def)

lemma settles_None: "settles None b"
  by (simp add: settles_def)

lemma settles_perform:
  "(\<And>x p'. settles (f x p') (g x p')) \<Longrightarrow> settles (perform m f p) (perform m g p)"
  by (auto simp: perform_def settles_def split: sum.splits)

lemma settles_thenRun:
  assumes "settles (f p) (f' p)" and "\<And>q. settles (g q) (g' q)"
  shows "settles (thenRun f g p) (thenRun f' g' p)"
proof (cases "f p")
  case None
  then show ?thesis by (simp add: thenRun_def settles_def)
next
  case (Some r)
  with assms(1) have same: "f' p = Some r" by (simp add: settles_def)
  show ?thesis
  proof (cases r)
    case (Inl e)
    with Some same show ?thesis by (simp add: thenRun_def settles_def)
  next
    case (Inr q)
    with Some same assms(2) [of q] show ?thesis by (simp add: thenRun_def)
  qed
qed

lemma settles_if:
  "settles (A p) (A' p) \<Longrightarrow> settles (B p) (B' p)
     \<Longrightarrow> settles ((if c then A else B) p) ((if c then A' else B') p)"
  by simp

lemma specIfLoop_Suc: "settles (specIfLoop n toks blockVar p) (specIfLoop (Suc n) toks blockVar p)"
proof (induction n arbitrary: p)
  case 0
  show ?case by (simp add: specIfLoop.simps(1) settles_None)
next
  case (Suc n)
  show ?case
    apply (subst specIfLoop.simps(2) [of n])
    apply (subst specIfLoop.simps(2) [of "Suc n"])
    by (intro settles_perform settles_if Suc.IH settles_refl)
qed

lemma specLoop_Suc: "settles (specLoop n toks blockVar p) (specLoop (Suc n) toks blockVar p)"
proof (induction n arbitrary: p)
  case 0
  show ?case by (simp add: specLoop.simps(1) settles_None)
next
  case (Suc n)
  show ?case
    apply (subst specLoop.simps(2) [of n])
    apply (subst specLoop.simps(2) [of "Suc n"])
    by (intro settles_perform settles_if settles_thenRun Suc.IH specIfLoop_Suc settles_refl)
qed

lemma parseSpec_Suc: "settles (parseSpec n toks p) (parseSpec (Suc n) toks p)"
  unfolding parseSpec_def
  by (intro settles_perform settles_thenRun specLoop_Suc settles_refl)

lemma statement_blockLoop_Suc:
  "settles (statement n toks gs ps p) (statement (Suc n) toks gs ps p)
   \<and> settles (blockLoop n toks gs ps p) (blockLoop (Suc n) toks gs ps p)"
proof (induction n arbitrary: gs ps p)
  case 0
  show ?case by (simp add: statement.simps(1) blockLoop.simps(1) settles_None)
next
  case (Suc n)
  note st = Suc.IH [THEN conjunct1] and bl = Suc.IH [THEN conjunct2]
  have "settles (statement (Suc n) toks gs ps p) (statement (Suc (Suc n)) toks gs ps p)"
    apply (subst statement.simps(2) [of n])
    apply (subst statement.simps(2) [of "Suc n"])
    by (intro settles_perform settles_if settles_thenRun bl parseSpec_Suc settles_refl)
  moreover
  have "settles (blockLoop (Suc n) toks gs ps p) (blockLoop (Suc (Suc n)) toks gs ps p)"
    apply (subst blockLoop.simps(2) [of n])
    apply (subst blockLoop.simps(2) [of "Suc n"])
    by (intro settles_perform settles_if settles_thenRun bl st settles_refl)
  ultimately show ?case by blast
qed

lemma parseLoop_Suc: "settles (parseLoop n toks p) (parseLoop (Suc n) toks p)"
proof (induction n arbitrary: p)
  case 0
  show ?case by (simp add: parseLoop.simps(1) settles_None)
next
  case (Suc n)
  show ?case
    apply (subst parseLoop.simps(2) [of n])
    apply (subst parseLoop.simps(2) [of "Suc n"])
    by (intro settles_perform settles_if settles_thenRun Suc.IH
          statement_blockLoop_Suc [THEN conjunct1] settles_refl)
qed

lemma parseLoop_more_fuel:
  "parseLoop n toks p = Some r \<Longrightarrow> n \<le> m \<Longrightarrow> parseLoop m toks p = Some r"
proof (induction m)
  case 0
  then show ?case by simp
next
  case (Suc m)
  show ?case
  proof (cases "n = Suc m")
    case True
    with Suc.prems show ?thesis by simp
  next
    case False
    with Suc have "parseLoop m toks p = Some r" by simp
    with parseLoop_Suc [of m toks p] show ?thesis by (simp add: settles_def)
  qed
qed

lemma parse_more_fuel:
  "parse n toks = Some r \<Longrightarrow> n \<le> m \<Longrightarrow> parse m toks = Some r"
  by (auto simp: parse_def split: option.splits sum.splits dest: parseLoop_more_fuel)

lemma parseRubyDsl_more_fuel:
  "parseRubyDsl n source = Some r \<Longrightarrow> n \<le> m \<Longrightarrow> parseRubyDsl m source = Some r"
  by (auto simp: parseRubyDsl_def split: sum.splits dest: parse_more_fuel)

subsection \<open>Running the model on a given input\<close>

text \<open>
  The equations that the simplifier needs to run the tokenizer, the string functions and
  the parser on a given input; fuel is written as a numeral.
\<close>

lemmas lex_eval = tokenize_def tokenizeWith_def tokenizeRun_def initialLexer_def
  tokenizeLoop.simps lexStep_def lexColon_def push_def bump_def scanTo_def scanWhile.simps
  literalBody.simps lexError_def previousHex_def firstCharHex_def toHex.simps hexDigit_def
  charCodeAt_def slice_def closingDelimiter_def wordKind_def singleCharKind_def isLetter_def
  isDigit_def isSymbolChar_def isIdentStart_def isIdentChar_def Let_def

lemmas strip_eval = strip_def startsWith_def endsWith_def trim_def isWhiteSpace_def
  skipPairsStart.simps skipPairsEnd.simps skipCharStart.simps skipCharEnd.simps
  stripInnerQuotes.simps fromPercentW_def formatVersion_def dropLeadingColon_def

lemmas fuel_eval =
  specIfLoop.simps(2) [of "pred_numeral k", folded numeral_eq_Suc]
  specLoop.simps(2) [of "pred_numeral k", folded numeral_eq_Suc]
  statement.simps(2) [of "pred_numeral k", folded numeral_eq_Suc]
  blockLoop.simps(2) [of "pred_numeral k", folded numeral_eq_Suc]
  parseLoop.simps(2) [of "pred_numeral k", folded numeral_eq_Suc]
  specIfLoop.simps(2) [of 0, folded One_nat_def]
  specLoop.simps(2) [of 0, folded One_nat_def]
  statement.simps(2) [of 0, folded One_nat_def]
  blockLoop.simps(2) [of 0, folded One_nat_def]
  parseLoop.simps(2) [of 0, folded One_nat_def]
  for k

lemmas parse_eval = parseRubyDsl_def parse_def newParser_def fuel_eval
  specIfLoop.simps specLoop.simps statement.simps blockLoop.simps parseLoop.simps
  parseSpec_def perform_def thenRun_def finish_def
  ret_def andThen_def orElse_def andAlso_def peekKind_def peekText_def advance_def nextToken_def
  throwError_def match_def matchWord_def matchSymbol_def enter_def leave_def
  skipToEol.simps skipToEnd.simps skipLine_def skipBlockLoop.simps skipBlock_def looksSpecNew_def
  labelsLoop.simps labels_def collectLoop.simps parseKeyValue_def parseArg_def parseArgs.simps
  emptyArgs_def parseDecl_def hasDevGroups_def pushRuntime_def pushDevelopment_def
  declStatement_def depMethods_def setSelfName_def setSelfVersion_def parseSpecStatement_def
  parseSpecHead_def

section \<open>The claims\<close>

subsection \<open>A gemspec with a word array of versions\<close>

text \<open>
  Claim C6. Parsing the three lines \<open>Gem::Specification.new do |s|\<close>,
  \<open>  s.add_runtime_dependency 'foo', %w[~>1.0 >=1.5]\<close> and \<open>end\<close> gives a runtime list of
  exactly one declaration, with name \<open>foo\<close>, versions \<open>~> 1.0\<close> and \<open>>= 1.5\<close>, empty groups
  and empty platforms, and an empty development list. Five units of fuel are enough, and
  more fuel gives the same output.
\<close>

theorem gemspec_word_array:
  "5 \<le> fuel \<Longrightarrow>
   parseRubyDsl fuel
     (str ''Gem::Specification.new do |s|'' @ [LINE_FEED]
      @ str ''  s.add_runtime_dependency 'foo', %w[~>1.0 >=1.5]'' @ [LINE_FEED]
      @ str ''end'')
   = Some (Inr \<lparr>selfName = None, selfVersion = None,
                runtime = [\<lparr>name = str ''foo'', versions = [str ''~> 1.0'', str ''>= 1.5''],
                            git = None, path = None, require = None, groups = Some [],
                            platforms = []\<rparr>],
                development = []\<rparr>)"
proof -
  assume fuel: "5 \<le> fuel"
  have "parseRubyDsl 5
     (str ''Gem::Specification.new do |s|'' @ [LINE_FEED]
      @ str ''  s.add_runtime_dependency 'foo', %w[~>1.0 >=1.5]'' @ [LINE_FEED]
      @ str ''end'')
   = Some (Inr \<lparr>selfName = None, selfVersion = None,
                runtime = [\<lparr>name = str ''foo'', versions = [str ''~> 1.0'', str ''>= 1.5''],
                            git = None, path = None, require = None, groups = Some [],
                            platforms = []\<rparr>],
                development = []\<rparr>)"
    by (simp add: lex_eval strip_eval parse_eval)
  then show ?thesis using fuel by (rule parseRubyDsl_more_fuel)
qed

theorem gemspec_word_array_witness:
  "parseRubyDsl 5
     (str ''Gem::Specification.new do |s|'' @ [LINE_FEED]
      @ str ''  s.add_runtime_dependency 'foo', %w[~>1.0 >=1.5]'' @ [LINE_FEED]
      @ str ''end'')
   = Some (Inr \<lparr>selfName = None, selfVersion = None,
                runtime = [\<lparr>name = str ''foo'', versions = [str ''~> 1.0'', str ''>= 1.5''],
                            git = None, path = None, require = None, groups = Some [],
                            platforms = []\<rparr>],
                development = []\<rparr>)"
  using gemspec_word_array [of 5] by simp

section \<open>Properties of the tokenizer\<close>

subsection \<open>What one iteration of the tokenizer does\<close>

text \<open>
  \<open>emits m lx lx'\<close>: from \<open>lx\<close> to \<open>lx'\<close> the token array is unchanged, or one token was
  pushed below the quota \<open>m\<close>, starting at the index of \<open>lx\<close> and ending at or before the
  index of \<open>lx'\<close>.
\<close>

definition emits :: "nat \<Rightarrow> lexer \<Rightarrow> lexer \<Rightarrow> bool" where
  "emits m lx lx' =
     (tokens lx' = tokens lx
      \<or> (\<exists>t. tokens lx' = tokens lx @ [t] \<and> tok_start t = index lx \<and> tok_start t \<le> tok_end t
              \<and> tok_end t \<le> index lx' \<and> length (tokens lx) < m))"

lemma push_emits:
  "push m source lx k s e = Inr lx' \<Longrightarrow>
     length (tokens lx) < m \<and> index lx' = index lx
     \<and> tokens lx' = tokens lx @ [\<lparr>tok_kind = k, tok_text = slice source s e, tok_start = s,
                                  tok_end = e, tok_line = line lx, tok_column = column lx\<rparr>]"
  by (auto simp: push_def split: if_splits)

lemma lexColon_emits:
  assumes "lexColon m source lx = Inr lx'"
  shows "emits m lx lx'"
  using assms scanTo_fields [of "bump lx" isSymbolChar source]
  by (auto simp: lexColon_def emits_def Let_def bump_fields
           split: if_splits sum.splits option.splits
           dest!: push_emits literalBody_fields)

lemma lexStep_emits:
  assumes "lexStep m source lx = Inr lx'"
  shows "emits m lx lx'"
proof (cases "source ! index lx = COLON_CHARACTER")
  case True
  with assms have "lexColon m source lx = Inr lx'"
    by (simp add: lexStep_def Let_def)
  then show ?thesis by (rule lexColon_emits)
next
  case False
  with assms show ?thesis
    using scanTo_fields [of lx "\<lambda>c. c \<noteq> LINE_FEED" source]
      scanTo_fields [of lx isIdentChar source] scanTo_fields [of lx isDigit source]
    by (auto simp: lexStep_def emits_def Let_def bump_fields
             split: if_splits sum.splits
             dest!: push_emits literalBody_fields)
qed

subsection \<open>Invariants of the main loop\<close>

lemma tokenizeLoop_invariant:
  assumes run: "tokenizeLoop m source lx = Inr lx'"
    and init: "I lx"
    and step: "\<And>a b. I a \<Longrightarrow> index a < length source
                 \<Longrightarrow> lexStep m source (a\<lparr>iterations := iterations a + 1\<rparr>) = Inr b \<Longrightarrow> I b"
  shows "I lx'"
  using run init step
proof (induction m source lx rule: tokenizeLoop.induct)
  case (1 m source lx)
  show ?case
  proof (cases "index lx < length source")
    case False
    with "1.prems" show ?thesis by (simp add: tokenizeLoop.simps [of m source lx])
  next
    case True
    with "1.prems"(1) have le: "\<not> iterations lx + 1 > length source * MAX_ITERATIONS"
      by (auto simp: tokenizeLoop.simps [of m source lx] split: if_splits)
    with True "1.prems"(1) obtain b where
      b: "lexStep m source (lx\<lparr>iterations := iterations lx + 1\<rparr>) = Inr b"
      and rest: "tokenizeLoop m source b = Inr lx'"
      by (auto simp: tokenizeLoop.simps [of m source lx] split: sum.splits)
    have "I b" using "1.prems"(2) True b by (rule "1.prems"(3))
    from "1.IH" [OF True le b rest this "1.prems"(3)] show ?thesis by simp
  qed
qed

lemma tokenizeLoop_error:
  assumes run: "tokenizeLoop m source lx = Inl e"
    and init: "I lx"
    and step: "\<And>a b. I a \<Longrightarrow> index a < length source
                 \<Longrightarrow> lexStep m source (a\<lparr>iterations := iterations a + 1\<rparr>) = Inr b \<Longrightarrow> I b"
  shows "\<exists>a. I a \<and> index a < length source
           \<and> (if iterations a + 1 > length source * MAX_ITERATIONS
               then e = lexError ''runaway lexer'' (a\<lparr>iterations := iterations a + 1\<rparr>) None
               else lexStep m source (a\<lparr>iterations := iterations a + 1\<rparr>) = Inl e)"
  using run init step
proof (induction m source lx rule: tokenizeLoop.induct)
  case (1 m source lx)
  from "1.prems"(1) have True: "index lx < length source"
    by (auto simp: tokenizeLoop.simps [of m source lx] split: if_splits)
  show ?case
  proof (cases "iterations lx + 1 > length source * MAX_ITERATIONS")
    case True
    with \<open>index lx < length source\<close> "1.prems" show ?thesis
      by (auto simp: tokenizeLoop.simps [of m source lx] intro!: exI [of _ lx])
  next
    case False
    note le = False
    show ?thesis
    proof (cases "lexStep m source (lx\<lparr>iterations := iterations lx + 1\<rparr>)")
      case (Inl e')
      with True le "1.prems" show ?thesis
        by (auto simp: tokenizeLoop.simps [of m source lx] intro!: exI [of _ lx])
    next
      case (Inr b)
      with True le "1.prems"(1) have rest: "tokenizeLoop m source b = Inl e"
        by (simp add: tokenizeLoop.simps [of m source lx])
      have "I b" using "1.prems"(2) True Inr by (rule "1.prems"(3))
      from "1.IH" [OF True le Inr rest this "1.prems"(3)] show ?thesis by simp
    qed
  qed
qed

lemma literalBody_error:
  "literalBody esc msg source closer opener lx len = Inl e \<Longrightarrow>
     \<exists>lx''. e = lexError msg lx'' (Some opener)"
proof (induction esc msg source closer opener lx len rule: literalBody.induct)
  case (1 esc msg source closer opener lx len)
  note unfold = literalBody.simps [of esc msg source closer opener lx len]
  from "1.prems" have loop: "index lx < length source \<and> charCodeAt source (index lx) \<noteq> closer"
    by (auto simp: unfold split: if_splits)
  show ?case
  proof (cases "len + 1 > MAX_STRING_LENGTH")
    case True
    with loop "1.prems" show ?thesis by (auto simp: unfold)
  next
    case False
    define lx1 where "lx1 = (if esc \<and> charCodeAt source (index lx) = Some BACKSLASH_CHARACTER
                     then lx\<lparr>index := index lx + 1, column := column lx + 1\<rparr> else lx)"
    define lx2 where "lx2 = (if charCodeAt source (index lx1) = Some LINE_FEED
                     then lx1\<lparr>line := line lx1 + 1, column := 1\<rparr>
                     else lx1\<lparr>column := column lx1 + 1\<rparr>)"
    have "literalBody esc msg source closer opener lx len
          = literalBody esc msg source closer opener (lx2\<lparr>index := index lx2 + 1\<rparr>) (len + 1)"
      using loop False by (subst literalBody.simps) (simp add: Let_def lx1_def lx2_def)
    with "1.prems"
    have "literalBody esc msg source closer opener (lx2\<lparr>index := index lx2 + 1\<rparr>) (len + 1) = Inl e"
      by simp
    from "1.IH" [OF loop _ lx1_def lx2_def this] False show ?thesis by simp
  qed
qed

text \<open>The message of an error; a \<open>TypeError\<close> has none of the parser's messages.\<close>

definition errorMessage :: "error \<Rightarrow> jsstring" where
  "errorMessage e = (case e of RubyDslError msg off l c h opener \<Rightarrow> msg | TypeError \<Rightarrow> [])"

lemma errorMessage_lexError [simp]: "errorMessage (lexError msg lx opener) = str msg"
  by (simp add: errorMessage_def lexError_def)

lemma push_error:
  "push m source lx k s e = Inl err \<Longrightarrow> err = lexError ''token quota exceeded'' lx None"
  by (auto simp: push_def split: if_splits)

lemma lexColon_error:
  "lexColon m source lx = Inl e \<Longrightarrow>
     errorMessage e \<in> {str ''token quota exceeded'', str ''symbol literal too long'',
                        str ''unterminated symbol''}"
  by (auto simp: lexColon_def Let_def split: if_splits sum.splits option.splits
           dest!: push_error literalBody_error)

lemma lexStep_error:
  "lexStep m source lx = Inl e \<Longrightarrow>
     errorMessage e \<in> {str ''token quota exceeded'', str ''symbol literal too long'',
                        str ''unterminated symbol'', str ''string literal too long'',
                        str ''unterminated string'', str ''%q/%w literal too long'',
                        str ''unterminated %q/%w literal'', str ''unknown character''}"
proof (cases "source ! index lx = COLON_CHARACTER")
  case True
  assume "lexStep m source lx = Inl e"
  with True have "lexColon m source lx = Inl e" by (simp add: lexStep_def Let_def)
  from lexColon_error [OF this] show ?thesis by blast
next
  case False
  assume "lexStep m source lx = Inl e"
  with False show ?thesis
    by (auto simp: lexStep_def Let_def split: if_splits sum.splits
             dest!: push_error literalBody_error)
qed

lemma iterations_bounded_step:
  assumes "iterations a \<le> index a \<and> iterations a \<le> length source"
    and "index a < length source"
    and "lexStep m source (a\<lparr>iterations := iterations a + 1\<rparr>) = Inr b"
  shows "iterations b \<le> index b \<and> iterations b \<le> length source"
  using assms lexStep_advances [of "a\<lparr>iterations := iterations a + 1\<rparr>" source m b]
  by simp

lemma tokenizeLoop_not_runaway:
  assumes "tokenizeLoop m source lx = Inl e"
    and "iterations lx \<le> index lx \<and> iterations lx \<le> length source"
  shows "errorMessage e \<noteq> str ''runaway lexer''"
proof -
  let ?I = "\<lambda>a. iterations a \<le> index a \<and> iterations a \<le> length source"
  have "\<exists>a. ?I a \<and> index a < length source
           \<and> (if iterations a + 1 > length source * MAX_ITERATIONS
               then e = lexError ''runaway lexer'' (a\<lparr>iterations := iterations a + 1\<rparr>) None
               else lexStep m source (a\<lparr>iterations := iterations a + 1\<rparr>) = Inl e)"
    using assms
  proof (rule tokenizeLoop_error)
    fix a b
    assume "?I a" "index a < length source"
      "lexStep m source (a\<lparr>iterations := iterations a + 1\<rparr>) = Inr b"
    then show "?I b" by (rule iterations_bounded_step)
  qed
  then obtain a where a: "iterations a \<le> index a" "index a < length source"
    and e: "(if iterations a + 1 > length source * MAX_ITERATIONS
               then e = lexError ''runaway lexer'' (a\<lparr>iterations := iterations a + 1\<rparr>) None
               else lexStep m source (a\<lparr>iterations := iterations a + 1\<rparr>) = Inl e)"
    by blast
  from a have "\<not> iterations a + 1 > length source * MAX_ITERATIONS" by simp
  with e have "lexStep m source (a\<lparr>iterations := iterations a + 1\<rparr>) = Inl e" by simp
  from lexStep_error [OF this] show ?thesis by auto
qed

lemma tokenizeWith_not_runaway:
  "tokenizeWith m source = Inl e \<Longrightarrow> errorMessage e \<noteq> str ''runaway lexer''"
  by (auto simp: tokenizeWith_def tokenizeRun_def initialLexer_def
           split: sum.splits dest!: push_error tokenizeLoop_not_runaway)

lemma tokenizeRun_iterations:
  assumes "tokenizeRun m source = Inr final"
  shows "iterations final \<le> length source"
proof -
  let ?I = "\<lambda>a. iterations a \<le> index a \<and> iterations a \<le> length source"
  from assms have "tokenizeLoop m source initialLexer = Inr final"
    by (simp add: tokenizeRun_def)
  then have "?I final"
  proof (rule tokenizeLoop_invariant)
    show "?I initialLexer" by (simp add: initialLexer_def)
  next
    fix a b
    assume "?I a" "index a < length source"
      "lexStep m source (a\<lparr>iterations := iterations a + 1\<rparr>) = Inr b"
    then show "?I b" by (rule iterations_bounded_step)
  qed
  then show ?thesis by simp
qed

text \<open>
  Claim C10. Every iteration of the tokenizer's main loop that does not throw moves the
  index forward by at least one; the iteration count never exceeds the input length; the
  \<open>runaway lexer\<close> error is never thrown. (\<open>tokenize\<close> is a total function: the index,
  which each iteration moves forward, is the measure of its termination proof.)
\<close>

theorem tokenizer_makes_progress:
  "(index lx < length source \<and> lexStep maxTokens source lx = Inr lx' \<longrightarrow> index lx < index lx')
   \<and> (tokenizeRun MAX_TOKENS source = Inr final \<longrightarrow> iterations final \<le> length source)
   \<and> tokenize source \<noteq> Inl (RubyDslError (str ''runaway lexer'') off l c h opener)"
proof (intro conjI impI)
  assume "index lx < length source \<and> lexStep maxTokens source lx = Inr lx'"
  then show "index lx < index lx'" using lexStep_advances by blast
next
  assume "tokenizeRun MAX_TOKENS source = Inr final"
  then show "iterations final \<le> length source" by (rule tokenizeRun_iterations)
next
  show "tokenize source \<noteq> Inl (RubyDslError (str ''runaway lexer'') off l c h opener)"
  proof
    assume "tokenize source = Inl (RubyDslError (str ''runaway lexer'') off l c h opener)"
    then have "tokenizeWith MAX_TOKENS source
               = Inl (RubyDslError (str ''runaway lexer'') off l c h opener)"
      by (simp add: tokenize_def)
    from tokenizeWith_not_runaway [OF this] show False by (simp add: errorMessage_def)
  qed
qed

theorem tokenizer_makes_progress_witness:
  "index initialLexer < length (str ''a'')
   \<and> lexStep MAX_TOKENS (str ''a'') initialLexer
       = Inr \<lparr>tokens = [\<lparr>tok_kind = TIdentifier, tok_text = str ''a'', tok_start = 0,
                              tok_end = 1, tok_line = 1, tok_column = 2\<rparr>],
                index = 1, iterations = 0, line = 1, column = 2\<rparr>
   \<and> index initialLexer
       < index \<lparr>tokens = [\<lparr>tok_kind = TIdentifier, tok_text = str ''a'', tok_start = 0,
                              tok_end = 1, tok_line = 1, tok_column = 2\<rparr>],
                index = 1, iterations = 0, line = 1, column = 2\<rparr>
   \<and> tokenizeRun MAX_TOKENS (str ''a'')
       = Inr \<lparr>tokens = [\<lparr>tok_kind = TIdentifier, tok_text = str ''a'', tok_start = 0,
                              tok_end = 1, tok_line = 1, tok_column = 2\<rparr>],
                index = 1, iterations = 1, line = 1, column = 2\<rparr>
   \<and> iterations \<lparr>tokens = [\<lparr>tok_kind = TIdentifier, tok_text = str ''a'', tok_start = 0,
                              tok_end = 1, tok_line = 1, tok_column = 2\<rparr>],
                index = 1, iterations = 1, line = 1, column = (2::nat)\<rparr>
       \<le> length (str ''a'')"
proof -
  let ?tok = "\<lparr>tok_kind = TIdentifier, tok_text = str ''a'', tok_start = 0, tok_end = 1,
               tok_line = 1, tok_column = 2\<rparr>"
  let ?lx' = "\<lparr>tokens = [?tok], index = 1, iterations = 0, line = 1, column = 2\<rparr>"
  let ?final = "\<lparr>tokens = [?tok], index = 1, iterations = 1, line = 1, column = 2\<rparr>"
  have first: "index initialLexer < length (str ''a'')" by (simp add: initialLexer_def)
  have step: "lexStep MAX_TOKENS (str ''a'') initialLexer = Inr ?lx'" by (simp add: lex_eval)
  have run: "tokenizeRun MAX_TOKENS (str ''a'') = Inr ?final" by (simp add: lex_eval)
  from tokenizer_makes_progress [where lx = initialLexer and source = "str ''a''"
      and maxTokens = MAX_TOKENS and lx' = ?lx' and final = ?final] first step run
  show ?thesis by simp
qed

subsection \<open>Token offsets\<close>

definition offsetsOrdered :: "lexer \<Rightarrow> bool" where
  "offsetsOrdered lx =
     (sorted (map tok_start (tokens lx))
      \<and> (\<forall>t \<in> set (tokens lx). tok_start t \<le> tok_end t \<and> tok_start t \<le> index lx))"

lemma offsetsOrdered_step:
  assumes "offsetsOrdered a" and "index a < length source"
    and "lexStep m source (a\<lparr>iterations := iterations a + 1\<rparr>) = Inr b"
  shows "offsetsOrdered b"
proof -
  from lexStep_advances [OF _ assms(3)] assms(2) have adv: "index a < index b" by simp
  from assms(1) have sorted_a: "sorted (map tok_start (tokens a))"
    and old: "\<And>t. t \<in> set (tokens a) \<Longrightarrow> tok_start t \<le> tok_end t \<and> tok_start t \<le> index a"
    by (auto simp: offsetsOrdered_def)
  from lexStep_emits [OF assms(3)]
  consider "tokens b = tokens a"
    | t where "tokens b = tokens a @ [t]" "tok_start t = index a" "tok_start t \<le> tok_end t"
    by (auto simp: emits_def)
  then show ?thesis
  proof cases
    case 1
    with sorted_a old adv show ?thesis by (fastforce simp: offsetsOrdered_def)
  next
    case 2
    have "sorted (map tok_start (tokens a @ [t]))"
      using sorted_a old 2(2) by (auto simp: sorted_append)
    moreover have "\<forall>u \<in> set (tokens a @ [t]). tok_start u \<le> tok_end u \<and> tok_start u \<le> index b"
      using old adv 2(2,3) by fastforce
    ultimately show ?thesis using 2(1) by (simp add: offsetsOrdered_def)
  qed
qed

lemma tokenizeWith_offsets:
  assumes "tokenizeWith m source = Inr toks"
  shows "sorted (map tok_start toks) \<and> (\<forall>t \<in> set toks. tok_start t \<le> tok_end t)"
proof -
  from assms obtain lx lx' where run: "tokenizeLoop m source initialLexer = Inr lx"
    and eof: "push m source lx TEndOfFile (index lx) (index lx) = Inr lx'"
    and toks: "toks = tokens lx'"
    by (auto simp: tokenizeWith_def tokenizeRun_def split: sum.splits)
  from run have "offsetsOrdered lx"
  proof (rule tokenizeLoop_invariant)
    show "offsetsOrdered initialLexer" by (simp add: offsetsOrdered_def initialLexer_def)
  next
    fix a b
    assume "offsetsOrdered a" "index a < length source"
      "lexStep m source (a\<lparr>iterations := iterations a + 1\<rparr>) = Inr b"
    then show "offsetsOrdered b" by (rule offsetsOrdered_step)
  qed
  with push_emits [OF eof] toks show ?thesis
    by (auto simp: offsetsOrdered_def sorted_append)
qed

text \<open>
  Claim C9. For every input on which \<open>tokenize\<close> succeeds, the start offsets of the
  returned tokens are non-decreasing along the array, and each token's start offset is at
  most its end offset.
\<close>

theorem token_offsets_ordered:
  "tokenize source = Inr toks \<Longrightarrow>
     sorted (map tok_start toks) \<and> (\<forall>t \<in> set toks. tok_start t \<le> tok_end t)"
  unfolding tokenize_def by (rule tokenizeWith_offsets)

theorem token_offsets_ordered_witness:
  "tokenize (str ''a ='')
     = Inr [\<lparr>tok_kind = TIdentifier, tok_text = str ''a'', tok_start = 0, tok_end = 1,
              tok_line = 1, tok_column = 2\<rparr>,
            \<lparr>tok_kind = TEquals, tok_text = str ''='', tok_start = 2, tok_end = 3,
              tok_line = 1, tok_column = 3\<rparr>,
            \<lparr>tok_kind = TEndOfFile, tok_text = [], tok_start = 3, tok_end = 3,
              tok_line = 1, tok_column = 4\<rparr>]
   \<and> sorted (map tok_start
         [\<lparr>tok_kind = TIdentifier, tok_text = str ''a'', tok_start = 0, tok_end = 1,
              tok_line = 1, tok_column = 2\<rparr>,
            \<lparr>tok_kind = TEquals, tok_text = str ''='', tok_start = 2, tok_end = 3,
              tok_line = 1, tok_column = 3\<rparr>,
            \<lparr>tok_kind = TEndOfFile, tok_text = [], tok_start = 3, tok_end = 3,
              tok_line = 1, tok_column = (4::nat)\<rparr>])
   \<and> list_all (\<lambda>t. tok_start t \<le> tok_end t)
         [\<lparr>tok_kind = TIdentifier, tok_text = str ''a'', tok_start = 0, tok_end = 1,
              tok_line = 1, tok_column = 2\<rparr>,
            \<lparr>tok_kind = TEquals, tok_text = str ''='', tok_start = 2, tok_end = 3,
              tok_line = 1, tok_column = 3\<rparr>,
            \<lparr>tok_kind = TEndOfFile, tok_text = [], tok_start = 3, tok_end = 3,
              tok_line = 1, tok_column = (4::nat)\<rparr>]"
proof -
  have run: "tokenize (str ''a ='')
     = Inr [\<lparr>tok_kind = TIdentifier, tok_text = str ''a'', tok_start = 0, tok_end = 1,
              tok_line = 1, tok_column = 2\<rparr>,
            \<lparr>tok_kind = TEquals, tok_text = str ''='', tok_start = 2, tok_end = 3,
              tok_line = 1, tok_column = 3\<rparr>,
            \<lparr>tok_kind = TEndOfFile, tok_text = [], tok_start = 3, tok_end = 3,
              tok_line = 1, tok_column = 4\<rparr>]"
    by (simp add: lex_eval)
  from token_offsets_ordered [OF run] run show ?thesis by (simp only: list_all_iff) blast
qed

subsection \<open>The token quota\<close>

text \<open>
  A run under the quota \<open>m\<close> and a run under the quota \<open>n\<close> differ only where a token is
  pushed: \<open>quotaAgrees n r lx'\<close> says that the step under \<open>n\<close> has the same result \<open>lx'\<close> if
  \<open>lx'\<close> has at most \<open>n\<close> tokens, and throws \<open>token quota exceeded\<close> if not.
\<close>

definition quotaAgrees :: "nat \<Rightarrow> error + lexer \<Rightarrow> lexer \<Rightarrow> bool" where
  "quotaAgrees n r lx' =
     (if length (tokens lx') \<le> n then r = Inr lx'
      else \<exists>e. r = Inl e \<and> errorMessage e = str ''token quota exceeded'')"

lemma push_quota:
  assumes "push m source lx k s e = Inr lx'" and "length (tokens lx) \<le> n"
  shows "if length (tokens lx') \<le> n then push n source lx k s e = Inr lx'
         else push n source lx k s e = Inl (lexError ''token quota exceeded'' lx None)"
  using assms by (auto simp: push_def split: if_splits)

lemma quota_room: "a \<le> n \<Longrightarrow> n \<noteq> a \<Longrightarrow> Suc a \<le> (n::nat)"
  by arith

lemma lexColon_quota:
  assumes "lexColon m source lx = Inr lx'" and "length (tokens lx) \<le> n"
  shows "quotaAgrees n (lexColon n source lx) lx'"
  using assms scanTo_fields [of "bump lx" isSymbolChar source]
  apply (simp only: lexColon_def [of m] Let_def)
  apply (simp split: if_splits sum.splits option.splits)
  apply (auto simp: lexColon_def quotaAgrees_def push_def Let_def bump_def lexError_def
                    errorMessage_def
              split: if_splits dest!: literalBody_fields)
  done

lemma lexStep_quota:
  assumes "lexStep m source lx = Inr lx'" and "length (tokens lx) \<le> n"
  shows "quotaAgrees n (lexStep n source lx) lx'"
proof (cases "source ! index lx = COLON_CHARACTER")
  case True
  with assms(1) have "lexColon m source lx = Inr lx'" by (simp add: lexStep_def Let_def)
  from lexColon_quota [OF this assms(2)] True show ?thesis by (simp add: lexStep_def Let_def)
next
  case False
  with assms show ?thesis
    using scanTo_fields [of lx "\<lambda>c. c \<noteq> LINE_FEED" source]
      scanTo_fields [of lx isIdentChar source] scanTo_fields [of lx isDigit source]
    apply (simp only: lexStep_def [of m] Let_def)
    apply (simp split: if_splits sum.splits)
    apply (auto simp: lexStep_def quotaAgrees_def push_def Let_def bump_def lexError_def
                      errorMessage_def
                split: if_splits dest!: literalBody_fields)
    apply (rule quota_room, assumption, assumption)+
    done
qed

lemma tokenizeLoop_tokens_grow:
  assumes "tokenizeLoop m source lx = Inr lx'"
  shows "length (tokens lx) \<le> length (tokens lx')"
  using assms
proof (rule tokenizeLoop_invariant [where I = "\<lambda>a. length (tokens lx) \<le> length (tokens a)"])
  fix a b
  assume "length (tokens lx) \<le> length (tokens a)"
    and "lexStep m source (a\<lparr>iterations := iterations a + 1\<rparr>) = Inr b"
  with lexStep_emits [of m source "a\<lparr>iterations := iterations a + 1\<rparr>" b]
  show "length (tokens lx) \<le> length (tokens b)" by (auto simp: emits_def)
qed simp

lemma tokenizeLoop_quota:
  assumes "tokenizeLoop m source lx = Inr lx'" and "length (tokens lx) \<le> n"
  shows "quotaAgrees n (tokenizeLoop n source lx) lx'"
  using assms
proof (induction m source lx rule: tokenizeLoop.induct)
  case (1 m source lx)
  show ?case
  proof (cases "index lx < length source")
    case False
    with "1.prems"(1) have "lx' = lx" by (simp add: tokenizeLoop.simps [of m source lx])
    moreover from False have "tokenizeLoop n source lx = Inr lx"
      by (simp add: tokenizeLoop.simps [of n source lx])
    ultimately show ?thesis using "1.prems"(2) by (simp add: quotaAgrees_def)
  next
    case True
    let ?lx = "lx\<lparr>iterations := iterations lx + 1\<rparr>"
    from True "1.prems"(1) have le: "\<not> iterations lx + 1 > length source * MAX_ITERATIONS"
      by (auto simp: tokenizeLoop.simps [of m source lx] split: if_splits)
    with True "1.prems"(1) obtain b where b: "lexStep m source ?lx = Inr b"
      and rest: "tokenizeLoop m source b = Inr lx'"
      by (auto simp: tokenizeLoop.simps [of m source lx] split: sum.splits)
    from lexStep_quota [OF b, of n] "1.prems"(2)
    have step: "quotaAgrees n (lexStep n source ?lx) b" by simp
    from tokenizeLoop_tokens_grow [OF rest] have grow: "length (tokens b) \<le> length (tokens lx')" .
    show ?thesis
    proof (cases "length (tokens b) \<le> n")
      case True
      with step have "lexStep n source ?lx = Inr b" by (simp add: quotaAgrees_def)
      with \<open>index lx < length source\<close> le
      have "tokenizeLoop n source lx = tokenizeLoop n source b"
        by (simp add: tokenizeLoop.simps [of n source lx])
      with "1.IH" [OF \<open>index lx < length source\<close> le b rest True] show ?thesis by simp
    next
      case False
      with step obtain e where "lexStep n source ?lx = Inl e"
        "errorMessage e = str ''token quota exceeded''"
        by (auto simp: quotaAgrees_def)
      with \<open>index lx < length source\<close> le False grow show ?thesis
        by (simp add: tokenizeLoop.simps [of n source lx] quotaAgrees_def)
    qed
  qed
qed

lemma tokenizeWith_bound:
  assumes "tokenizeWith m source = Inr toks"
  shows "length toks \<le> m"
  using assms by (auto simp: tokenizeWith_def split: sum.splits dest!: push_emits)

lemma tokenizeWith_quota:
  assumes "tokenizeWith m source = Inr toks" and "n < length toks"
  shows "\<exists>e. tokenizeWith n source = Inl e \<and> errorMessage e = str ''token quota exceeded''"
proof -
  from assms(1) obtain lx lx' where run: "tokenizeLoop m source initialLexer = Inr lx"
    and eof: "push m source lx TEndOfFile (index lx) (index lx) = Inr lx'"
    and toks: "toks = tokens lx'"
    by (auto simp: tokenizeWith_def tokenizeRun_def split: sum.splits)
  from push_emits [OF eof] toks assms(2) have big: "n \<le> length (tokens lx)" by simp
  from tokenizeLoop_quota [OF run, of n]
  have agree: "quotaAgrees n (tokenizeLoop n source initialLexer) lx"
    by (simp add: initialLexer_def)
  show ?thesis
  proof (cases "length (tokens lx) \<le> n")
    case True
    with agree have "tokenizeLoop n source initialLexer = Inr lx" by (simp add: quotaAgrees_def)
    with big show ?thesis
      by (simp add: tokenizeWith_def tokenizeRun_def push_def)
  next
    case False
    with agree show ?thesis
      by (auto simp: quotaAgrees_def tokenizeWith_def tokenizeRun_def)
  qed
qed

text \<open>A source of \<open>k\<close> line feeds: \<open>k\<close> \<open>NewLine\<close> tokens and the \<open>EndOfFile\<close> token.\<close>

definition newLineToken :: "nat \<Rightarrow> Token" where
  "newLineToken i = \<lparr>tok_kind = TNewLine, tok_text = [LINE_FEED], tok_start = i, tok_end = i + 1,
                     tok_line = i + 1, tok_column = 1\<rparr>"

definition afterNewLines :: "nat \<Rightarrow> lexer" where
  "afterNewLines j = \<lparr>tokens = map newLineToken [0..<j], index = j, iterations = j,
                      line = j + 1, column = 1\<rparr>"

lemma newLines_step:
  assumes "j < k" and "k < m"
  shows "lexStep m (replicate k LINE_FEED) ((afterNewLines j)\<lparr>iterations := j + 1\<rparr>)
         = Inr (afterNewLines (j + 1))"
  using assms
  by (simp add: lexStep_def Let_def push_def afterNewLines_def newLineToken_def slice_def
                take_Suc_conv_app_nth)

lemma newLines_loop:
  assumes "j \<le> k" and "k < m"
  shows "tokenizeLoop m (replicate k LINE_FEED) (afterNewLines j) = Inr (afterNewLines k)"
  using assms
proof (induction "k - j" arbitrary: j)
  case 0
  then have "\<not> index (afterNewLines j) < length (replicate k LINE_FEED)"
    by (simp add: afterNewLines_def)
  moreover from 0 have "j = k" by simp
  ultimately show ?case by (simp add: tokenizeLoop.simps [of m _ "afterNewLines k"])
next
  case (Suc d)
  then have j: "j < k" by simp
  with Suc.prems have step: "lexStep m (replicate k LINE_FEED) ((afterNewLines j)\<lparr>iterations := j + 1\<rparr>)
         = Inr (afterNewLines (j + 1))"
    by (intro newLines_step) simp_all
  from Suc j have "tokenizeLoop m (replicate k LINE_FEED) (afterNewLines (j + 1)) = Inr (afterNewLines k)"
    by (intro Suc.hyps) simp_all
  moreover have "index (afterNewLines j) = j" "iterations (afterNewLines j) = j"
    by (simp_all add: afterNewLines_def)
  ultimately show ?case using j step
    by (simp add: tokenizeLoop.simps [of m _ "afterNewLines j"])
qed

lemma newLines_tokenize:
  assumes "k < m"
  shows "tokenizeWith m (replicate k LINE_FEED)
         = Inr (map newLineToken [0..<k]
                @ [\<lparr>tok_kind = TEndOfFile, tok_text = [], tok_start = k, tok_end = k,
                     tok_line = k + 1, tok_column = 1\<rparr>])"
proof -
  have "initialLexer = afterNewLines 0" by (simp add: initialLexer_def afterNewLines_def)
  with newLines_loop [of 0 k m] assms show ?thesis
    by (simp add: tokenizeWith_def tokenizeRun_def push_def afterNewLines_def slice_def)
qed

text \<open>
  Claim C7. \<open>tokenize\<close> never returns more than 40 000 tokens; and whenever lexing the
  input takes more than 40 000 tokens, the final \<open>EndOfFile\<close> token counted (the tokenizer
  under a higher quota returns that many), \<open>tokenize\<close> throws \<open>token quota exceeded\<close>.
\<close>

theorem tokenize_quota:
  "(tokenize source = Inr toks \<longrightarrow> length toks \<le> MAX_TOKENS)
   \<and> (tokenizeWith m source = Inr toks' \<and> MAX_TOKENS < length toks' \<longrightarrow>
        (\<exists>off l c h opener.
           tokenize source = Inl (RubyDslError (str ''token quota exceeded'') off l c h opener)))"
proof (intro conjI impI)
  assume "tokenize source = Inr toks"
  then show "length toks \<le> MAX_TOKENS" by (simp add: tokenize_def tokenizeWith_bound)
next
  assume "tokenizeWith m source = Inr toks' \<and> MAX_TOKENS < length toks'"
  then obtain e where "tokenizeWith MAX_TOKENS source = Inl e"
    and "errorMessage e = str ''token quota exceeded''"
    using tokenizeWith_quota by blast
  then show "\<exists>off l c h opener.
           tokenize source = Inl (RubyDslError (str ''token quota exceeded'') off l c h opener)"
    by (cases e) (simp_all add: tokenize_def errorMessage_def)
qed

theorem tokenize_quota_witness:
  "length [\<lparr>tok_kind = TIdentifier, tok_text = str ''a'', tok_start = 0, tok_end = 1, tok_line = 1,
            tok_column = 2\<rparr>,
           \<lparr>tok_kind = TEndOfFile, tok_text = [], tok_start = 1, tok_end = 1, tok_line = 1,
            tok_column = 2\<rparr>] \<le> MAX_TOKENS
   \<and> MAX_TOKENS < length (map newLineToken [0..<40000]
                @ [\<lparr>tok_kind = TEndOfFile, tok_text = [], tok_start = 40000, tok_end = 40000,
                     tok_line = 40000 + 1, tok_column = 1\<rparr>])
   \<and> (\<exists>off l c h opener.
           tokenize (replicate 40000 LINE_FEED)
           = Inl (RubyDslError (str ''token quota exceeded'') off l c h opener))"
proof -
  have small: "tokenize (str ''a'')
      = Inr [\<lparr>tok_kind = TIdentifier, tok_text = str ''a'', tok_start = 0, tok_end = 1, tok_line = 1,
               tok_column = 2\<rparr>,
             \<lparr>tok_kind = TEndOfFile, tok_text = [], tok_start = 1, tok_end = 1, tok_line = 1,
               tok_column = 2\<rparr>]"
    by (simp add: lex_eval)
  have big: "tokenizeWith 40001 (replicate 40000 LINE_FEED)
      = Inr (map newLineToken [0..<40000]
                @ [\<lparr>tok_kind = TEndOfFile, tok_text = [], tok_start = 40000, tok_end = 40000,
                     tok_line = 40000 + 1, tok_column = 1\<rparr>])"
    by (rule newLines_tokenize) simp
  have len: "MAX_TOKENS < length (map newLineToken [0..<40000]
                @ [\<lparr>tok_kind = TEndOfFile, tok_text = [], tok_start = 40000, tok_end = 40000,
                     tok_line = 40000 + 1, tok_column = 1\<rparr>])"
    by simp
  let ?small = "[\<lparr>tok_kind = TIdentifier, tok_text = str ''a'', tok_start = 0, tok_end = 1,
                   tok_line = 1, tok_column = 2\<rparr>,
                 \<lparr>tok_kind = TEndOfFile, tok_text = [], tok_start = 1, tok_end = 1,
                   tok_line = 1, tok_column = 2\<rparr>]"
  let ?big = "map newLineToken [0..<40000]
                @ [\<lparr>tok_kind = TEndOfFile, tok_text = [], tok_start = 40000, tok_end = 40000,
                     tok_line = 40000 + 1, tok_column = 1\<rparr>]"
  from tokenize_quota [where source = "str ''a''" and toks = ?small and m = 0 and toks' = "[]"]
    small
  have "length ?small \<le> MAX_TOKENS" by blast
  moreover
  from tokenize_quota [where source = "replicate 40000 LINE_FEED" and toks = "[]" and m = 40001
      and toks' = ?big] big len
  have "\<exists>off l c h opener.
           tokenize (replicate 40000 LINE_FEED)
           = Inl (RubyDslError (str ''token quota exceeded'') off l c h opener)"
    by blast
  ultimately show ?thesis using len by blast
qed

section \<open>Properties of the parser\<close>

subsection \<open>Methods that leave the output alone\<close>

definition keepsOut :: "'a step \<Rightarrow> bool" where
  "keepsOut m = (\<forall>p x p'. m p = Inr (x, p') \<longrightarrow> out p' = out p)"

lemma keepsOutD: "keepsOut m \<Longrightarrow> m p = Inr (x, p') \<Longrightarrow> out p' = out p"
  by (auto simp: keepsOut_def)

lemma keepsOut_ret: "keepsOut (ret x)"
  by (simp add: keepsOut_def ret_def)

lemma keepsOut_andThen:
  "keepsOut m \<Longrightarrow> (\<And>x. keepsOut (f x)) \<Longrightarrow> keepsOut (andThen m f)"
  unfolding keepsOut_def by (fastforce dest!: andThen_Inr)

lemma keepsOut_if: "keepsOut a \<Longrightarrow> keepsOut b \<Longrightarrow> keepsOut (if c then a else b)"
  by simp

lemma keepsOut_orElse: "keepsOut a \<Longrightarrow> keepsOut b \<Longrightarrow> keepsOut (orElse a b)"
  unfolding orElse_def by (intro keepsOut_andThen keepsOut_if keepsOut_ret)

lemma keepsOut_andAlso: "keepsOut a \<Longrightarrow> keepsOut b \<Longrightarrow> keepsOut (andAlso a b)"
  unfolding andAlso_def by (intro keepsOut_andThen keepsOut_if keepsOut_ret)

lemma keepsOut_peekKind: "keepsOut (peekKind toks)"
  by (auto simp: keepsOut_def peekKind_def split: if_splits)

lemma keepsOut_peekText: "keepsOut (peekText toks)"
  by (auto simp: keepsOut_def peekText_def split: if_splits)

lemma keepsOut_advance: "keepsOut advance"
  by (auto simp: keepsOut_def advance_def)

lemma keepsOut_nextToken: "keepsOut (nextToken toks)"
  by (auto simp: keepsOut_def nextToken_def split: if_splits)

lemma keepsOut_throwError: "keepsOut (throwError toks msg)"
  by (auto simp: keepsOut_def throwError_def Let_def split: if_splits)

lemma keepsOut_enter: "keepsOut (enter toks)"
  by (auto simp: keepsOut_def enter_def throwError_def Let_def split: if_splits)

lemma keepsOut_leave: "keepsOut leave"
  by (auto simp: keepsOut_def leave_def)

lemmas keepsOut_basic = keepsOut_andThen keepsOut_if keepsOut_ret keepsOut_orElse keepsOut_andAlso
  keepsOut_peekKind keepsOut_peekText keepsOut_advance keepsOut_nextToken keepsOut_throwError
  keepsOut_enter keepsOut_leave

lemma keepsOut_match: "keepsOut (match toks k)"
  unfolding match_def by (intro keepsOut_basic)

lemma keepsOut_matchWord: "keepsOut (matchWord toks w)"
  unfolding matchWord_def by (intro keepsOut_basic)


text \<open>
  Where \<open>skipToEol\<close> stops: at the first \<open>NewLine\<close> or \<open>EndOfFile\<close> token at or after the
  cursor.
\<close>

definition endsLine :: "Token \<Rightarrow> bool" where
  "endsLine t = (tok_kind t = TNewLine \<or> tok_kind t = TEndOfFile)"

lemma skipToEol_stops:
  "skipToEol toks p = Inr (u, p') \<Longrightarrow>
     cursor p \<le> cursor p' \<and> cursor p' < length toks \<and> endsLine (toks ! cursor p')
     \<and> (\<forall>i. cursor p \<le> i \<and> i < cursor p' \<longrightarrow> \<not> endsLine (toks ! i))
     \<and> p' = p\<lparr>cursor := cursor p'\<rparr>"
proof (induction toks p rule: skipToEol.induct)
  case (1 toks p)
  note unfold = skipToEol.simps [of toks p]
  from "1.prems" have inrange: "cursor p < length toks"
    by (auto simp: unfold peekKind_def split: if_splits)
  then have k: "peekKind toks p = Inr (tok_kind (toks ! cursor p), p)"
    by (simp add: peekKind_def)
  show ?case
  proof (cases "endsLine (toks ! cursor p)")
    case True
    with "1.prems" k inrange show ?thesis by (auto simp: unfold endsLine_def)
  next
    case False
    with "1.prems" k have rest: "skipToEol toks (p\<lparr>cursor := cursor p + 1\<rparr>) = Inr (u, p')"
      by (auto simp: unfold endsLine_def)
    from False have "tok_kind (toks ! cursor p) \<noteq> TNewLine \<and> tok_kind (toks ! cursor p) \<noteq> TEndOfFile"
      by (simp add: endsLine_def)
    from "1.IH" [OF k refl this rest]
    have IH: "cursor p + 1 \<le> cursor p'" "cursor p' < length toks" "endsLine (toks ! cursor p')"
      "\<forall>i. cursor p + 1 \<le> i \<and> i < cursor p' \<longrightarrow> \<not> endsLine (toks ! i)"
      "p' = p\<lparr>cursor := cursor p'\<rparr>"
      by simp_all
    have "\<not> endsLine (toks ! i)" if "cursor p \<le> i" "i < cursor p'" for i
      using that False IH(4) by (cases "i = cursor p") auto
    with IH show ?thesis by auto
  qed
qed

lemma keepsOut_skipToEol: "keepsOut (skipToEol toks)"
  unfolding keepsOut_def
proof (intro allI impI)
  fix p x p'
  assume "skipToEol toks p = Inr (x, p')"
  from skipToEol_stops [OF this] have "p' = p\<lparr>cursor := cursor p'\<rparr>" by simp
  then have "out p' = out (p\<lparr>cursor := cursor p'\<rparr>)" by simp
  then show "out p' = out p" by simp
qed




lemma keepsOut_collectLoop: "keepsOut (collectLoop toks wanted f xs)"
  by (auto simp: keepsOut_def dest: collectLoop_frame)

lemma keepsOut_skipLine: "keepsOut (skipLine toks)"
  unfolding skipLine_def
  by (intro keepsOut_basic keepsOut_match keepsOut_skipToEol)




lemma keepsOut_parseKeyValue: "keepsOut (parseKeyValue toks key a)"
  by (auto simp: keepsOut_def dest: parseKeyValue_frame)

lemma keepsOut_parseArg: "keepsOut (parseArg toks a)"
  by (auto simp: keepsOut_def dest: parseArg_frame)

lemma keepsOut_parseArgs: "keepsOut (parseArgs toks a)"
proof -
  have "parseArgs toks a p = Inr (a', p') \<Longrightarrow> out p' = out p" for p a' p'
  proof (induction toks a p rule: parseArgs.induct)
    case (1 toks a p)
    note unfold = parseArgs.simps [of toks a p]
    from "1.prems" obtain comma p1 where m: "match toks TComma p = Inr (comma, p1)"
      by (auto simp: unfold split: sum.splits)
    from match_Inr [OF m] have p1: "out p1 = out p" by simp
    show ?case
    proof (cases comma)
      case False
      with "1.prems" m p1 show ?thesis by (auto simp: unfold)
    next
      case True
      with "1.prems" m obtain continue a1 p2 where
        arg: "parseArg toks a p1 = Inr ((continue, a1), p2)"
        and r: "(if continue then parseArgs toks a1 p2 else Inr (a1, p2)) = Inr (a', p')"
        by (auto simp: unfold split: sum.splits)
      from parseArg_frame [OF arg] p1 have p2: "out p2 = out p" by simp
      show ?thesis
      proof (cases continue)
        case False
        with r p2 show ?thesis by simp
      next
        case continue: True
        with r have "parseArgs toks a1 p2 = Inr (a', p')" by simp
        from "1.IH" [OF m refl True arg refl refl continue this] p2 show ?thesis by simp
      qed
    qed
  qed
  then show ?thesis by (auto simp: keepsOut_def)
qed

lemma keepsOut_parseDecl: "keepsOut (parseDecl toks outerGroups outerPlatforms)"
  unfolding parseDecl_def
  by (intro keepsOut_basic keepsOut_match keepsOut_matchWord keepsOut_parseArgs)

subsection \<open>What \<open>parseDecl\<close> returns\<close>

text \<open>The name that \<open>parseDecl\<close> takes from its name token.\<close>

definition declName :: "Token \<Rightarrow> jsstring" where
  "declName t = (if tok_kind t = TIdentifier then tok_text t else strip (tok_text t))"

definition isNameToken :: "Token \<Rightarrow> bool" where
  "isNameToken t = (tok_kind t = TString \<or> tok_kind t = TSymbol \<or> tok_kind t = TIdentifier)"

lemma throwError_Inl: "throwError toks msg p \<noteq> Inr r"
  by (simp add: throwError_def Let_def)

lemma parseDecl_result:
  assumes "parseDecl toks outerGroups outerPlatforms p = Inr (decl, p')"
  shows "out p' = out p
    \<and> (\<exists>i < length toks. isNameToken (toks ! i) \<and> name decl = declName (toks ! i))
    \<and> (\<exists>a q q'. parseArgs toks emptyArgs q = Inr (a, q')
          \<and> groups decl = Some (outerGroups @ inlineGroups a)
          \<and> platforms decl = outerPlatforms @ inlinePlatforms a
          \<and> require decl = argReq a)"
proof -
  from keepsOutD [OF keepsOut_parseDecl assms] have "out p' = out p" .
  moreover
  from assms obtain hasParens p1 nameTok p2 where
    "match toks TLeftParen p = Inr (hasParens, p1)"
    and nt: "nextToken toks p1 = Inr (nameTok, p2)"
    and rest: "(if tok_kind nameTok \<noteq> TString \<and> tok_kind nameTok \<noteq> TSymbol
          \<and> tok_kind nameTok \<noteq> TIdentifier
       then throwError toks ''name literal expected''
       else
         andThen (andAlso (match toks TDot) (matchWord toks ''freeze'')) (\<lambda>_.
         andThen (parseArgs toks emptyArgs) (\<lambda>a.
         andThen (if hasParens then match toks TRightParen else ret False) (\<lambda>_.
           ret \<lparr>name = (if tok_kind nameTok = TIdentifier then tok_text nameTok
                        else strip (tok_text nameTok)),
                versions = map formatVersion (argVersions a),
                git = argGit a,
                path = argPath a,
                require = argReq a,
                groups = Some (outerGroups @ inlineGroups a),
                platforms = outerPlatforms @ inlinePlatforms a\<rparr>)))) p2 = Inr (decl, p')"
    unfolding parseDecl_def by (blast dest!: andThen_Inr)
  from rest have kind: "isNameToken nameTok"
    by (auto simp: isNameToken_def throwError_Inl split: if_splits)
  with rest obtain a q q' where args: "parseArgs toks emptyArgs q = Inr (a, q')"
    and decl: "decl = \<lparr>name = declName nameTok,
                versions = map formatVersion (argVersions a),
                git = argGit a,
                path = argPath a,
                require = argReq a,
                groups = Some (outerGroups @ inlineGroups a),
                platforms = outerPlatforms @ inlinePlatforms a\<rparr>"
    by (auto simp: isNameToken_def declName_def ret_def split: if_splits dest!: andThen_Inr)
  from nextToken_Inr [OF nt] kind decl
  have "\<exists>i < length toks. isNameToken (toks ! i) \<and> name decl = declName (toks ! i)"
    by auto
  moreover from args decl
  have "\<exists>a q q'. parseArgs toks emptyArgs q = Inr (a, q')
          \<and> groups decl = Some (outerGroups @ inlineGroups a)
          \<and> platforms decl = outerPlatforms @ inlinePlatforms a
          \<and> require decl = argReq a"
    by auto
  ultimately show ?thesis by blast
qed

subsection \<open>The branch of \<open>statement\<close> for \<open>gem\<close> and \<open>pod\<close>\<close>

lemma skipLine_at_eol:
  assumes "cursor r < length toks" and "endsLine (toks ! cursor r)"
  shows "skipLine toks r
         = Inr ((), r\<lparr>cursor := (if tok_kind (toks ! cursor r) = TNewLine then cursor r + 1
                                  else cursor r)\<rparr>)"
  using assms
  by (auto simp: skipLine_def match_def andThen_def ret_def peekKind_def advance_def endsLine_def
                 skipToEol.simps [of toks r])

text \<open>
  \<open>lineEnd toks c j\<close>: \<open>j\<close> is the first position after \<open>c\<close> that holds a \<open>NewLine\<close> or
  \<open>EndOfFile\<close> token.
\<close>

definition lineEnd :: "Token list \<Rightarrow> nat \<Rightarrow> nat \<Rightarrow> bool" where
  "lineEnd toks c j =
     (c < j \<and> j < length toks \<and> endsLine (toks ! j)
      \<and> (\<forall>i. c < i \<and> i < j \<longrightarrow> \<not> endsLine (toks ! i)))"

lemma declStatement_effect:
  assumes run: "declStatement toks outerGroups outerPlatforms p = Inr (u, p')"
  shows "\<exists>decl q. parseDecl toks outerGroups outerPlatforms p = Inr (decl, q)
      \<and> cursor q < length toks
      \<and> (if hasDevGroups decl
          then development (out p') = development (out p) @ [decl\<lparr>groups := None\<rparr>]
               \<and> runtime (out p') = runtime (out p)
          else runtime (out p')
                 = runtime (out p) @ [if tok_kind (toks ! cursor q) = TIf
                                      then decl\<lparr>groups := None\<rparr> else decl]
               \<and> development (out p') = development (out p))
      \<and> (tok_kind (toks ! cursor q) = TIf \<longrightarrow>
            (\<exists>j. lineEnd toks (cursor q) j
                 \<and> cursor p' = (if tok_kind (toks ! j) = TNewLine then j + 1 else j)))"
proof -
  from run obtain decl q where pd: "parseDecl toks outerGroups outerPlatforms p = Inr (decl, q)"
    and rest0: "(let dev = hasDevGroups decl;
           decl1 = (if dev then decl\<lparr>groups := None\<rparr> else decl)
       in andThen (peekKind toks) (\<lambda>k.
            let hasTrailingConditional = (k = TIf);
                decl2 = (if hasTrailingConditional then decl1\<lparr>groups := None\<rparr> else decl1)
            in andThen (if hasTrailingConditional
                        then andThen advance (\<lambda>_. skipToEol toks) else ret ()) (\<lambda>_.
               andThen (if dev then pushDevelopment decl2 else pushRuntime decl2) (\<lambda>_.
               skipLine toks)))) q = Inr (u, p')"
    unfolding declStatement_def by (blast dest!: andThen_Inr)
  from parseDecl_result [OF pd] have outq: "out q = out p" by simp
  let ?k = "tok_kind (toks ! cursor q)"
  let ?dev = "hasDevGroups decl"
  let ?decl2 = "if ?k = TIf then decl\<lparr>groups := None\<rparr>
                else if ?dev then decl\<lparr>groups := None\<rparr> else decl"
  from rest0 obtain q1 q2 where inrange: "cursor q < length toks"
    and skip: "(if ?k = TIf then andThen advance (\<lambda>_. skipToEol toks) else ret ()) q = Inr ((), q1)"
    and push: "(if ?dev then pushDevelopment ?decl2 else pushRuntime ?decl2) q1 = Inr ((), q2)"
    and line: "skipLine toks q2 = Inr (u, p')"
    by (auto simp: Let_def dest!: andThen_Inr peekKind_Inr split: if_splits)
  have outq1: "out q1 = out q"
    using skip
    by (auto simp: ret_def advance_def split: if_splits
             dest!: andThen_Inr keepsOutD [OF keepsOut_skipToEol])
  from keepsOutD [OF keepsOut_skipLine line] have outp': "out p' = out q2" .
  have lists: "if ?dev
          then development (out p') = development (out p) @ [decl\<lparr>groups := None\<rparr>]
               \<and> runtime (out p') = runtime (out p)
          else runtime (out p')
                 = runtime (out p) @ [if ?k = TIf then decl\<lparr>groups := None\<rparr> else decl]
               \<and> development (out p') = development (out p)"
    using push outq outq1 outp'
    by (auto simp: pushDevelopment_def pushRuntime_def split: if_splits)
  have cond: "\<exists>j. lineEnd toks (cursor q) j
                 \<and> cursor p' = (if tok_kind (toks ! j) = TNewLine then j + 1 else j)"
    if isIf: "?k = TIf"
  proof -
    from skip isIf have "skipToEol toks (q\<lparr>cursor := cursor q + 1\<rparr>) = Inr ((), q1)"
      by (auto simp: advance_def dest!: andThen_Inr)
    from skipToEol_stops [OF this]
    have stop: "cursor q + 1 \<le> cursor q1" "cursor q1 < length toks" "endsLine (toks ! cursor q1)"
      "\<forall>i. cursor q + 1 \<le> i \<and> i < cursor q1 \<longrightarrow> \<not> endsLine (toks ! i)"
      by simp_all
    from push have cq2: "cursor q2 = cursor q1"
      by (auto simp: pushDevelopment_def pushRuntime_def split: if_splits)
    with stop line skipLine_at_eol [of q2 toks]
    have "cursor p' = (if tok_kind (toks ! cursor q1) = TNewLine then cursor q1 + 1 else cursor q1)"
      by auto
    moreover from stop have "lineEnd toks (cursor q) (cursor q1)"
      by (auto simp: lineEnd_def)
    ultimately show ?thesis by blast
  qed
  from pd inrange lists cond show ?thesis by blast
qed



text \<open>The token array of a source that the tokenizer accepts (empty if it throws).\<close>

definition tokensOf :: "jsstring \<Rightarrow> Token list" where
  "tokensOf source = (case tokenize source of Inr toks \<Rightarrow> toks | Inl e \<Rightarrow> [])"

subsection \<open>The argument list of a declaration, token by token\<close>

























subsection \<open>Blocks and their labels\<close>











subsection \<open>Runtime or development\<close>



subsection \<open>A trailing conditional\<close>

text \<open>
  Claim C2. If the token after the argument list of a \<open>gem\<close> or \<open>pod\<close> line is \<open>if\<close>, the
  declaration is appended without its groups field, to the list that the classification
  chooses, and the cursor moves past the tokens of the line: to the first \<open>NewLine\<close> or
  \<open>EndOfFile\<close> token after the \<open>if\<close>, and over it if it is a \<open>NewLine\<close>.
\<close>

theorem trailing_conditional:
  assumes "parseDecl toks outerGroups outerPlatforms p = Inr (decl, q)"
    and "tok_kind (toks ! cursor q) = TIf"
    and "declStatement toks outerGroups outerPlatforms p = Inr (u, p')"
  shows "(if hasDevGroups decl
          then development (out p') = development (out p) @ [decl\<lparr>groups := None\<rparr>]
               \<and> runtime (out p') = runtime (out p)
          else runtime (out p') = runtime (out p) @ [decl\<lparr>groups := None\<rparr>]
               \<and> development (out p') = development (out p))
     \<and> (\<exists>j. lineEnd toks (cursor q) j
            \<and> cursor p' = (if tok_kind (toks ! j) = TNewLine then j + 1 else j))"
  using declStatement_effect [OF assms(3)] assms(1,2) by (auto split: if_splits)

theorem trailing_conditional_witness:
  "\<exists>q p'. parseDecl (tokensOf (str ''gem 'c', '1' if x'')) [str ''web''] []
             (newParser\<lparr>cursor := 1\<rparr>)
           = Inr (\<lparr>name = str ''c'', versions = [str ''1''], git = None, path = None,
                    require = None, groups = Some [str ''web''], platforms = []\<rparr>, q)
     \<and> tok_kind (tokensOf (str ''gem 'c', '1' if x'') ! cursor q) = TIf
     \<and> declStatement (tokensOf (str ''gem 'c', '1' if x'')) [str ''web''] []
             (newParser\<lparr>cursor := 1\<rparr>) = Inr ((), p')
     \<and> runtime (out p')
         = [\<lparr>name = str ''c'', versions = [str ''1''], git = None, path = None,
              require = None, groups = None, platforms = []\<rparr>]
     \<and> development (out p') = []"
proof -
  let ?toks = "tokensOf (str ''gem 'c', '1' if x'')"
  let ?decl = "\<lparr>name = str ''c'', versions = [str ''1''], git = None, path = None,
                 require = None, groups = Some [str ''web''], platforms = []\<rparr>"
  have "\<exists>q. parseDecl ?toks [str ''web''] [] (newParser\<lparr>cursor := 1\<rparr>) = Inr (?decl, q)
            \<and> tok_kind (?toks ! cursor q) = TIf"
    by (simp add: tokensOf_def lex_eval strip_eval parse_eval)
  then obtain q where h1: "parseDecl ?toks [str ''web''] [] (newParser\<lparr>cursor := 1\<rparr>) = Inr (?decl, q)"
    and h2: "tok_kind (?toks ! cursor q) = TIf"
    by blast
  have "\<exists>p'. declStatement ?toks [str ''web''] [] (newParser\<lparr>cursor := 1\<rparr>) = Inr ((), p')"
    by (simp add: tokensOf_def lex_eval strip_eval parse_eval)
  then obtain p' where h3: "declStatement ?toks [str ''web''] [] (newParser\<lparr>cursor := 1\<rparr>) = Inr ((), p')" ..
  have nodev: "\<not> hasDevGroups ?decl" by (simp add: hasDevGroups_def)
  from trailing_conditional [OF h1 h2 h3] nodev
  have "runtime (out p') = [?decl\<lparr>groups := None\<rparr>] \<and> development (out p') = []"
    by (simp add: newParser_def)
  with h1 h2 h3 show ?thesis by auto
qed

subsection \<open>The \<open>require\<close> key\<close>




subsection \<open>Normalizing twice\<close>

text \<open>
  Claim C8, as the code has it. \<open>strip\<close> returns its argument unchanged when it begins
  with none of \<open>%q\<close>, \<open>%w\<close>, a quote, or a colon followed by something; so
  \<open>strip (strip s) = strip s\<close> whenever \<open>strip s\<close> begins with none of these. It does not
  hold of every string: the string token \<open>"'a"\<close> is stripped to \<open>'a\<close>, and \<open>'a\<close> to the
  empty string.
\<close>

theorem strip_twice:
  assumes "\<not> startsWith (strip s) (str ''%q'')" and "\<not> startsWith (strip s) (str ''%w'')"
    and "charCodeAt (strip s) 0 \<noteq> Some SINGLE_QUOTE_CHARACTER"
    and "charCodeAt (strip s) 0 \<noteq> Some DOUBLE_QUOTE_CHARACTER"
    and "charCodeAt (strip s) 0 = Some COLON_CHARACTER \<longrightarrow> length (strip s) \<le> 1"
  shows "strip (strip s) = strip s"
proof -
  have "strip r = r"
    if "\<not> startsWith r (str ''%q'')" "\<not> startsWith r (str ''%w'')"
      "charCodeAt r 0 \<noteq> Some SINGLE_QUOTE_CHARACTER" "charCodeAt r 0 \<noteq> Some DOUBLE_QUOTE_CHARACTER"
      "charCodeAt r 0 = Some COLON_CHARACTER \<longrightarrow> length r \<le> 1" for r
    using that by (auto simp: strip_def)
  from this [OF assms] show ?thesis .
qed

theorem strip_twice_witness:
  "strip (str ''\"rails\"'') = str ''rails''
   \<and> strip (strip (str ''\"rails\"'')) = strip (str ''\"rails\"'')"
proof -
  have v: "strip (str ''\"rails\"'') = str ''rails''"
    by (simp add: strip_eval charCodeAt_def slice_def)
  have "strip (strip (str ''\"rails\"'')) = strip (str ''\"rails\"'')"
    apply (rule strip_twice)
    apply (simp_all only: v)
    apply (simp_all add: startsWith_def charCodeAt_def)
    done
  with v show ?thesis by blast
qed

theorem strip_twice_counterexample:
  "strip [DOUBLE_QUOTE_CHARACTER, SINGLE_QUOTE_CHARACTER, 97, DOUBLE_QUOTE_CHARACTER]
     = [SINGLE_QUOTE_CHARACTER, 97]
   \<and> strip (strip [DOUBLE_QUOTE_CHARACTER, SINGLE_QUOTE_CHARACTER, 97, DOUBLE_QUOTE_CHARACTER])
     = []
   \<and> strip (strip [DOUBLE_QUOTE_CHARACTER, SINGLE_QUOTE_CHARACTER, 97, DOUBLE_QUOTE_CHARACTER])
     \<noteq> strip [DOUBLE_QUOTE_CHARACTER, SINGLE_QUOTE_CHARACTER, 97, DOUBLE_QUOTE_CHARACTER]"
  by (simp add: strip_eval charCodeAt_def slice_def)

subsection \<open>Where the names of the declarations come from\<close>










































subsection \<open>A block that is not closed\<close>

lemma statement_at_eof:
  assumes "cursor p < length toks" and "tok_kind (toks ! cursor p) = TEndOfFile"
  shows "statement (Suc n) toks gs ps p = Some (Inr p)"
  using assms
  by (simp add: statement.simps perform_def finish_def orElse_def andAlso_def andThen_def
                ret_def matchWord_def match_def peekKind_def looksSpecNew_def skipLine_def
                skipToEol.simps [of toks p])

lemma blockLoop_at_eof:
  assumes "cursor p < length toks" and "tok_kind (toks ! cursor p) = TEndOfFile"
  shows "blockLoop n toks gs ps p = None"
proof -
  have step: "blockLoop (Suc m) toks gs ps p
              = thenRun (statement m toks gs ps) (blockLoop m toks gs ps) p" for m
    using assms
    by (simp add: blockLoop.simps perform_def match_def andThen_def peekKind_def ret_def)
  show ?thesis
  proof (induction n)
    case 0
    show ?case by (simp add: blockLoop.simps)
  next
    case (Suc n)
    show ?case
    proof (cases n)
      case 0
      then show ?thesis by (simp add: step thenRun_def statement.simps)
    next
      case (Suc k)
      with Suc.IH statement_at_eof [OF assms, of k gs ps] show ?thesis
        by (simp add: step thenRun_def)
    qed
  qed
qed

text \<open>
  Claim C3 fails on the code. The loop \<open>while (!this.match(TokenKind.End))\<close> of a block
  does not look for the end of the input, and \<open>statement\<close> consumes nothing there: at the
  \<open>EndOfFile\<close> token the loop never ends. On the source \<open>group :test do\<close>, a block with
  no \<open>end\<close>, no amount of fuel makes \<open>parseRubyDsl\<close> return.
\<close>

theorem unclosed_block_never_returns: "parseRubyDsl fuel (str ''group :test do'') = None"
proof -
  let ?toks = "tokensOf (str ''group :test do'')"
  have toks: "tokenize (str ''group :test do'') = Inr ?toks"
    by (simp add: tokensOf_def lex_eval)
  have st: "statement n ?toks [] [] newParser = None" for n
  proof (cases n)
    case 0
    then show ?thesis by (simp add: statement.simps)
  next
    case (Suc k)
    show ?thesis
      unfolding Suc by (simp add: tokensOf_def lex_eval strip_eval parse_eval blockLoop_at_eof)
  qed
  have "parseLoop fuel ?toks newParser = None"
  proof (cases fuel)
    case 0
    then show ?thesis by (simp add: parseLoop.simps)
  next
    case (Suc n)
    have "cursor newParser < length ?toks" "tok_kind (?toks ! cursor newParser) \<noteq> TEndOfFile"
      by (simp_all add: tokensOf_def lex_eval newParser_def)
    with st [of n] show ?thesis
      unfolding Suc by (simp add: parseLoop.simps perform_def peekKind_def thenRun_def)
  qed
  with toks show ?thesis by (simp add: parseRubyDsl_def parse_def)
qed

end
